theory Spec2Isabelle
  imports Complex_Main "HOL-Library.Sublist" "HOL-Library.Multiset"
begin

section \<open>Custom rules (the rule-matching engine and the rule application service)\<close>

subsection \<open>Data model\<close>

text \<open>\<^verbatim>\<open>CustomRuleFileType = 'file' | 'folder'\<close>.\<close>

datatype CustomRuleFileType = File | Folder

text \<open>
  A vault entry: \<^verbatim>\<open>TFolder\<close> and every other \<^verbatim>\<open>TAbstractFile\<close> (a \<^verbatim>\<open>TFile\<close>), each with its
  \<^verbatim>\<open>path\<close>.
\<close>

datatype TAbstractFile = TFile (path: string) | TFolder (path: string)

text \<open>
  \<^verbatim>\<open>CustomRule\<close>. The field \<^verbatim>\<open>for\<close> is written \<open>for'\<close>; the code compares it with the
  string literals \<^verbatim>\<open>'everything'\<close>, \<^verbatim>\<open>'files'\<close> and \<^verbatim>\<open>'folders'\<close>, so it is kept a string.
\<close>

record CustomRule =
  icon :: string
  color :: "string option"
  for' :: string
  rule :: string
  useFilePath :: bool
  order :: int

text \<open>The errors a JavaScript expression of this module can throw.\<close>

datatype js_error = SyntaxError | TypeError

text \<open>The value the Icon Assignment Cache holds for a path.\<close>

record IconCacheEntry =
  iconNameWithPrefix :: string
  inCustomRule :: bool

text \<open>
  A rendered icon node: the value of its \<^verbatim>\<open>ICON_ATTRIBUTE_NAME\<close> attribute and its
  \<^verbatim>\<open>parentElement\<close> (an element id, or none).
\<close>

record icon_node =
  node_icon :: string
  parentElement :: "nat option"

text \<open>
  What the module reads from its surroundings and never writes: the regular-expression
  engine (\<^verbatim>\<open>new RegExp\<close> throws on invalid syntax, \<^verbatim>\<open>test\<close> of a flagless expression is
  pure), the vault lookup, the plugin's icon-name lookup, the registered file explorers
  (each a list of file items, a file with its title element), the renderer's choice
  of a target element when \<^verbatim>\<open>createIconNode\<close> gets no container, and the browser's answer
  to an attribute selector whose value does not stand for itself (see \<open>querySelectorAll\<close>
  below): it throws, or it selects some nodes of the document.
\<close>

record 'r host =
  new_RegExp :: "string \<Rightarrow> js_error + 'r"
  regex_test :: "'r \<Rightarrow> string \<Rightarrow> bool"
  getAbstractFileByPath :: "string \<Rightarrow> TAbstractFile option"
  getIconNameFromPath :: "string \<Rightarrow> string option"
  getRegisteredFileExplorers :: "(TAbstractFile \<times> nat) list list"
  titleElOfPath :: "string \<Rightarrow> nat option"
  selectorEngine :: "string \<Rightarrow> icon_node list \<Rightarrow> js_error + icon_node list"

text \<open>
  What the module writes: the module-level \<^verbatim>\<open>regexCache\<close> (a \<^verbatim>\<open>Map<string, RegExp | null>\<close>,
  the inner \<open>None\<close> being \<^verbatim>\<open>null\<close>), the \<^verbatim>\<open>IconCache\<close> singleton, and the document (the icon
  nodes in document order and the \<^verbatim>\<open>data-path\<close> attribute of every element). Two fields
  are instrumentation: \<open>compiled\<close> lists the arguments of the \<^verbatim>\<open>new RegExp\<close> calls made so
  far and \<open>rendered\<close> the path and icon of every \<^verbatim>\<open>createIconNode\<close> call, both oldest first.
\<close>

record 'r state =
  regexCache :: "string \<rightharpoonup> 'r option"
  compiled :: "string list"
  iconCache :: "string \<rightharpoonup> IconCacheEntry"
  icon_nodes :: "icon_node list"
  data_path :: "nat \<Rightarrow> string option"
  rendered :: "(string \<times> string) list"

text \<open>The settings, as far as the two modules read them: the rules and the shortcode delimiter.\<close>

record settings =
  rules :: "CustomRule list"
  iconIdentifier :: string

subsection \<open>Strings\<close>

text \<open>\<^verbatim>\<open>s.split(c)\<close> for a one-character separator: never empty.\<close>

fun split_on :: "char \<Rightarrow> string \<Rightarrow> string list" where
  "split_on c [] = [[]]"
| "split_on c (x # xs) =
     (if x = c then [] # split_on c xs
      else (case split_on c xs of
              [] \<Rightarrow> [[x]]
            | w # ws \<Rightarrow> (x # w) # ws))"

text \<open>\<^verbatim>\<open>t.includes(s)\<close>: \<open>s\<close> occurs in \<open>t\<close> at some position.\<close>

fun js_includes :: "string \<Rightarrow> string \<Rightarrow> bool" where
  "js_includes [] s = (s = [])"
| "js_includes (x # xs) s = (take (length s) (x # xs) = s \<or> js_includes xs s)"

text \<open>JavaScript truthiness of a \<^verbatim>\<open>string | undefined\<close>: defined and not empty.\<close>

fun truthy :: "string option \<Rightarrow> bool" where
  "truthy None = False"
| "truthy (Some s) = (s \<noteq> [])"

subsection \<open>The rule-matching engine\<close>

definition doesMatchFileType :: "CustomRule \<Rightarrow> CustomRuleFileType \<Rightarrow> bool" where
  "doesMatchFileType r fileType =
     (for' r = ''everything'' \<or>
      (for' r = ''files'' \<and> fileType = File) \<or>
      (for' r = ''folders'' \<and> fileType = Folder))"

text \<open>\<^verbatim>\<open>abstractFile instanceof TFolder ? 'folder' : 'file'\<close>.\<close>

fun fileTypeOf :: "TAbstractFile \<Rightarrow> CustomRuleFileType" where
  "fileTypeOf (TFolder p) = Folder"
| "fileTypeOf (TFile p) = File"

text \<open>
  \<^verbatim>\<open>doesMatchPath\<close>. The \<^verbatim>\<open>try\<close>/\<^verbatim>\<open>catch\<close> turns a throwing \<^verbatim>\<open>new RegExp\<close> into the entry
  \<^verbatim>\<open>null\<close>. After the block the entry is read back: \<^verbatim>\<open>null\<close> selects \<^verbatim>\<open>includes\<close>, a
  compiled expression \<^verbatim>\<open>test\<close>, and \<^verbatim>\<open>undefined\<close> (no entry) would make \<^verbatim>\<open>regex.test\<close> throw
  a \<^verbatim>\<open>TypeError\<close>.
\<close>

definition doesMatchPath ::
  "'r host \<Rightarrow> CustomRule \<Rightarrow> string \<Rightarrow> 'r state \<Rightarrow> js_error + (bool \<times> 'r state)" where
  "doesMatchPath h r p s =
     (let toMatch = (if useFilePath r then p else last (split_on CHR ''/'' p));
          s1 = (if regexCache s (rule r) = None
                then (case new_RegExp h (rule r) of
                        Inr re \<Rightarrow> s\<lparr>regexCache := (regexCache s)(rule r \<mapsto> Some re),
                                    compiled := compiled s @ [rule r]\<rparr>
                      | Inl e \<Rightarrow> s\<lparr>regexCache := (regexCache s)(rule r \<mapsto> None),
                                   compiled := compiled s @ [rule r]\<rparr>)
                else s)
      in case regexCache s1 (rule r) of
           None \<Rightarrow> Inl TypeError
         | Some None \<Rightarrow> Inr (js_includes toMatch (rule r), s1)
         | Some (Some re) \<Rightarrow> Inr (regex_test h re toMatch, s1))"

definition isApplicable ::
  "'r host \<Rightarrow> CustomRule \<Rightarrow> string \<Rightarrow> 'r state \<Rightarrow> js_error + (bool \<times> 'r state)" where
  "isApplicable h r filePath s =
     (case getAbstractFileByPath h filePath of
        None \<Rightarrow> Inr (False, s)
      | Some abstractFile \<Rightarrow>
          if \<not> doesMatchFileType r (fileTypeOf abstractFile) then Inr (False, s)
          else doesMatchPath h r filePath s)"

subsection \<open>The document and the Icon Assignment Cache\<close>

text \<open>
  A string that stands for itself between the double quotes of a CSS string: it holds no
  double quote, no backslash, no line break (line feed, form feed, carriage return) and
  no NUL.
\<close>

definition css_string_body :: "string \<Rightarrow> bool" where
  "css_string_body v =
     list_all (\<lambda>c. c \<noteq> CHR 0x22 \<and> c \<noteq> CHR 0x5C \<and> c \<noteq> CHR 0x0A \<and> c \<noteq> CHR 0x0C \<and>
                   c \<noteq> CHR 0x0D \<and> c \<noteq> CHR 0x00) v"

text \<open>
  \<^verbatim>\<open>document.querySelectorAll('[ICON_ATTRIBUTE_NAME="' + v + '"]')\<close>: a static list. The
  code pastes \<open>v\<close> into the selector as it is. When \<open>v\<close> stands for itself in a CSS string,
  the selector selects the nodes whose attribute equals \<open>v\<close>. Otherwise the browser reads
  another selector, or none: the call throws a \<^verbatim>\<open>SyntaxError\<close> or returns other nodes, as the
  host's selector engine says.
\<close>

definition querySelectorAll :: "'r host \<Rightarrow> 'r state \<Rightarrow> string \<Rightarrow> js_error + icon_node list" where
  "querySelectorAll h s v =
     (if css_string_body v then Inr (filter (\<lambda>n. node_icon n = v) (icon_nodes s))
      else selectorEngine h v (icon_nodes s))"

text \<open>
  Modelled from the spec: \<^verbatim>\<open>dom.doesElementHasIconNode\<close>, \<^verbatim>\<open>dom.removeIconInNode\<close> and
  \<^verbatim>\<open>dom.createIconNode\<close> are not part of the sources at hand. The spec has a render target
  that "already visually carries an icon node", a removal that "removes the rendered icon
  node", and a rendering "of the icon into the target container".
\<close>

definition isIconNodeOf :: "nat \<Rightarrow> icon_node \<Rightarrow> bool" where
  "isIconNodeOf el n = (parentElement n = Some el)"

definition doesElementHasIconNode :: "'r state \<Rightarrow> nat \<Rightarrow> bool" where
  "doesElementHasIconNode s el = list_ex (isIconNodeOf el) (icon_nodes s)"

definition removeIconInNode :: "nat \<Rightarrow> 'r state \<Rightarrow> 'r state" where
  "removeIconInNode el s =
     s\<lparr>icon_nodes := filter (\<lambda>n. \<not> isIconNodeOf el n) (icon_nodes s)\<rparr>"

definition createIconNode ::
  "'r host \<Rightarrow> string \<Rightarrow> string \<Rightarrow> string option \<Rightarrow> nat option \<Rightarrow> 'r state \<Rightarrow> 'r state" where
  "createIconNode h p iconName col container s =
     (let s1 = s\<lparr>rendered := rendered s @ [(p, iconName)]\<rparr> in
      case (case container of Some c \<Rightarrow> Some c | None \<Rightarrow> titleElOfPath h p) of
        None \<Rightarrow> s1
      | Some el \<Rightarrow>
          s1\<lparr>icon_nodes := filter (\<lambda>n. \<not> isIconNodeOf el n) (icon_nodes s1) @
                            [\<lparr>node_icon = iconName, parentElement = Some el\<rparr>]\<rparr>)"

text \<open>
  Modelled from the spec: the \<^verbatim>\<open>IconCache\<close> singleton is not part of the sources at hand.
  \<^verbatim>\<open>set\<close> overwrites, \<^verbatim>\<open>invalidate\<close> removes the entry and is a no-op on an absent path.
\<close>

definition IconCache_set :: "string \<Rightarrow> IconCacheEntry \<Rightarrow> 'r state \<Rightarrow> 'r state" where
  "IconCache_set p e s = s\<lparr>iconCache := (iconCache s)(p \<mapsto> e)\<rparr>"

definition IconCache_invalidate :: "string \<Rightarrow> 'r state \<Rightarrow> 'r state" where
  "IconCache_invalidate p s = s\<lparr>iconCache := (iconCache s)(p := None)\<rparr>"

subsection \<open>The rule application service\<close>

text \<open>
  The body of the loop of \<^verbatim>\<open>removeFromAllFiles\<close>, for one node of the static node list;
  \<^verbatim>\<open>continue\<close> returns the state as it is. A node an earlier iteration detached has no
  \<^verbatim>\<open>parentElement\<close> any more; an empty \<^verbatim>\<open>data-path\<close> is falsy, so it is skipped like a
  missing one.
\<close>

definition removeFromAllFiles_body ::
  "'r host \<Rightarrow> CustomRule \<Rightarrow> icon_node \<Rightarrow> 'r state \<Rightarrow> js_error + 'r state" where
  "removeFromAllFiles_body h r node s =
     (case (if node \<in> set (icon_nodes s) then parentElement node else None) of
        None \<Rightarrow> Inr s
      | Some parent \<Rightarrow>
          (case data_path s parent of
             None \<Rightarrow> Inr s
           | Some dataPath \<Rightarrow>
               if dataPath = [] then Inr s
               else
                 (case getAbstractFileByPath h dataPath of
                    None \<Rightarrow> Inr s
                  | Some abstractFile \<Rightarrow>
                      (case doesMatchPath h r dataPath s of
                         Inl e \<Rightarrow> Inl e
                       | Inr (m, s1) \<Rightarrow>
                           if m \<and> doesMatchFileType r (fileTypeOf abstractFile)
                           then Inr (IconCache_invalidate dataPath (removeIconInNode parent s1))
                           else Inr s1))))"

fun removeFromAllFiles_loop ::
  "'r host \<Rightarrow> CustomRule \<Rightarrow> icon_node list \<Rightarrow> 'r state \<Rightarrow> js_error + 'r state" where
  "removeFromAllFiles_loop h r [] s = Inr s"
| "removeFromAllFiles_loop h r (node # nodes) s =
     (case removeFromAllFiles_body h r node s of
        Inl e \<Rightarrow> Inl e
      | Inr s1 \<Rightarrow> removeFromAllFiles_loop h r nodes s1)"

definition removeFromAllFiles :: "'r host \<Rightarrow> CustomRule \<Rightarrow> 'r state \<Rightarrow> js_error + 'r state" where
  "removeFromAllFiles h r s =
     (case querySelectorAll h s (icon r) of
        Inl e \<Rightarrow> Inl e
      | Inr nodesWithIcon \<Rightarrow> removeFromAllFiles_loop h r nodesWithIcon s)"

text \<open>
  \<^verbatim>\<open>getSortedRules\<close>: \<^verbatim>\<open>Array.prototype.sort\<close> is stable, sorts the array it is called on
  and returns that same array, so the settings hold the sorted list afterwards.
\<close>

definition getSortedRules :: "settings \<Rightarrow> CustomRule list \<times> settings" where
  "getSortedRules st =
     (let sorted = sort_key order (rules st) in (sorted, st\<lparr>rules := sorted\<rparr>))"

definition add ::
  "'r host \<Rightarrow> CustomRule \<Rightarrow> TAbstractFile \<Rightarrow> nat option \<Rightarrow> 'r state \<Rightarrow>
     js_error + (bool \<times> 'r state)" where
  "add h r file container s =
     (if (case container of None \<Rightarrow> False | Some c \<Rightarrow> doesElementHasIconNode s c)
      then Inr (False, s)
      else if truthy (getIconNameFromPath h (path file)) then Inr (False, s)
      else
        (case isApplicable h r (path file) s of
           Inl e \<Rightarrow> Inl e
         | Inr (doesMatch, s1) \<Rightarrow>
             if doesMatch
             then Inr (True,
                    createIconNode h (path file) (icon r) (color r) container
                      (IconCache_set (path file)
                         \<lparr>iconNameWithPrefix = icon r, inCustomRule = True\<rparr> s1))
             else Inr (False, s1)))"

fun getFileItems_loop ::
  "'r host \<Rightarrow> CustomRule \<Rightarrow> (TAbstractFile \<times> nat) list \<Rightarrow> (TAbstractFile \<times> nat) list \<Rightarrow>
     'r state \<Rightarrow> js_error + ((TAbstractFile \<times> nat) list \<times> 'r state)" where
  "getFileItems_loop h r [] result s = Inr (result, s)"
| "getFileItems_loop h r (fileItem # files) result s =
     (case isApplicable h r (path (fst fileItem)) s of
        Inl e \<Rightarrow> Inl e
      | Inr (b, s1) \<Rightarrow>
          getFileItems_loop h r files (if b then result @ [fileItem] else result) s1)"

definition getFileItems ::
  "'r host \<Rightarrow> CustomRule \<Rightarrow> 'r state \<Rightarrow> js_error + ((TAbstractFile \<times> nat) list \<times> 'r state)" where
  "getFileItems h r s = getFileItems_loop h r (concat (getRegisteredFileExplorers h)) [] s"

fun addToAllFiles_loop ::
  "'r host \<Rightarrow> CustomRule \<Rightarrow> (TAbstractFile \<times> nat) list \<Rightarrow> 'r state \<Rightarrow> js_error + 'r state" where
  "addToAllFiles_loop h r [] s = Inr s"
| "addToAllFiles_loop h r (fileItem # fileItems) s =
     (case add h r (fst fileItem) (Some (snd fileItem)) s of
        Inl e \<Rightarrow> Inl e
      | Inr (b, s1) \<Rightarrow> addToAllFiles_loop h r fileItems s1)"

definition addToAllFiles :: "'r host \<Rightarrow> CustomRule \<Rightarrow> 'r state \<Rightarrow> js_error + 'r state" where
  "addToAllFiles h r s =
     (case getFileItems h r s of
        Inl e \<Rightarrow> Inl e
      | Inr (fileItems, s1) \<Rightarrow> addToAllFiles_loop h r fileItems s1)"

subsection \<open>Notions used to state the properties of this module\<close>

text \<open>
  The comparison subject in the spec's words: the full path, or the final path segment
  (what follows the last \<^verbatim>\<open>/\<close>).
\<close>

definition final_segment :: "string \<Rightarrow> string" where
  "final_segment p = rev (takeWhile (\<lambda>c. c \<noteq> CHR ''/'') (rev p))"

definition comparison_subject :: "CustomRule \<Rightarrow> string \<Rightarrow> string" where
  "comparison_subject r p = (if useFilePath r then p else final_segment p)"

text \<open>
  The Pattern Cache in the spec's words: the entry a pattern string compiles to (the
  compiled matcher, or the fallback marker \<open>None\<close>), the entry a state resolves a string
  to, the state after the entry has been created on first use, and the test an entry
  stands for.
\<close>

definition compile_entry :: "'r host \<Rightarrow> string \<Rightarrow> 'r option" where
  "compile_entry h k = (case new_RegExp h k of Inl e \<Rightarrow> None | Inr re \<Rightarrow> Some re)"

definition resolve :: "'r host \<Rightarrow> 'r state \<Rightarrow> string \<Rightarrow> 'r option" where
  "resolve h s k = (case regexCache s k of Some v \<Rightarrow> v | None \<Rightarrow> compile_entry h k)"

definition ensure_entry :: "'r host \<Rightarrow> string \<Rightarrow> 'r state \<Rightarrow> 'r state" where
  "ensure_entry h k s =
     (if regexCache s k = None
      then s\<lparr>regexCache := (regexCache s)(k \<mapsto> compile_entry h k),
             compiled := compiled s @ [k]\<rparr>
      else s)"

definition match_with :: "'r host \<Rightarrow> 'r option \<Rightarrow> string \<Rightarrow> string \<Rightarrow> bool" where
  "match_with h m k subject =
     (case m of None \<Rightarrow> js_includes subject k | Some re \<Rightarrow> regex_test h re subject)"

definition matches_compiled :: "'r host \<Rightarrow> CustomRule \<times> string \<Rightarrow> bool" where
  "matches_compiled h c =
     match_with h (compile_entry h (rule (fst c))) (rule (fst c))
       (comparison_subject (fst c) (snd c))"

text \<open>A sequence of \<^verbatim>\<open>doesMatchPath\<close> calls, each on the state the previous one left.\<close>

fun doesMatchPath_calls ::
  "'r host \<Rightarrow> (CustomRule \<times> string) list \<Rightarrow> 'r state \<Rightarrow>
     js_error + (bool list \<times> 'r state)" where
  "doesMatchPath_calls h [] s = Inr ([], s)"
| "doesMatchPath_calls h (c # cs) s =
     (case doesMatchPath h (fst c) (snd c) s of
        Inl e \<Rightarrow> Inl e
      | Inr (b, s1) \<Rightarrow>
          (case doesMatchPath_calls h cs s1 of
             Inl e \<Rightarrow> Inl e
           | Inr (bs, s2) \<Rightarrow> Inr (b # bs, s2)))"

text \<open>
  Every entry of the cache is what its key compiles to, and the log of compilations
  names every key of the cache once.
\<close>

definition cache_ok :: "'r host \<Rightarrow> 'r state \<Rightarrow> bool" where
  "cache_ok h s = (\<forall>k v. regexCache s k = Some v \<longrightarrow> v = compile_entry h k)"

definition log_ok :: "'r state \<Rightarrow> bool" where
  "log_ok s = (distinct (compiled s) \<and> set (compiled s) = dom (regexCache s))"

text \<open>
  The document invariant of the renderer: no two icon nodes under one parent element.
  \<^verbatim>\<open>createIconNode\<close>, \<^verbatim>\<open>add\<close> and \<^verbatim>\<open>removeFromAllFiles\<close> keep it.
\<close>

definition single_icon :: "'r state \<Rightarrow> bool" where
  "single_icon s =
     distinct (map parentElement (filter (\<lambda>n. parentElement n \<noteq> None) (icon_nodes s)))"

text \<open>
  The owning path of a rendered icon node, read as the code reads it: the \<^verbatim>\<open>data-path\<close>
  attribute of the node's parent element.
\<close>

definition owning_path :: "'r state \<Rightarrow> icon_node \<Rightarrow> string option" where
  "owning_path s n = (case parentElement n of None \<Rightarrow> None | Some el \<Rightarrow> data_path s el)"

text \<open>
  The spec's words for a node whose owning path still matches the rule under the current
  type and path rules: it has an owning path, not empty, the vault has an entry for it,
  the rule's pattern matches the path's comparison subject and the rule's \<^verbatim>\<open>for\<close> matches
  the entry's type.
\<close>

definition still_matches :: "'r host \<Rightarrow> 'r state \<Rightarrow> CustomRule \<Rightarrow> icon_node \<Rightarrow> bool" where
  "still_matches h s r n =
     (case owning_path s n of
        None \<Rightarrow> False
      | Some d \<Rightarrow>
          d \<noteq> [] \<and>
          (case getAbstractFileByPath h d of
             None \<Rightarrow> False
           | Some f \<Rightarrow>
               match_with h (resolve h s (rule r)) (rule r) (comparison_subject r d) \<and>
               doesMatchFileType r (fileTypeOf f)))"

subsection \<open>Example values\<close>

text \<open>The state at process start: both caches empty, nothing rendered.\<close>

definition init_state :: "'r state" where
  "init_state =
     \<lparr>regexCache = Map.empty, compiled = [], iconCache = Map.empty, icon_nodes = [],
      data_path = (\<lambda>el. None), rendered = []\<rparr>"

text \<open>
  A host for the examples. Its engine knows two facts of JavaScript: \<^verbatim>\<open>new RegExp("[")\<close>
  throws, and a pattern without metacharacters tests containment. The vault holds the
  file \<^verbatim>\<open>notes/todo.md\<close> and the folder \<^verbatim>\<open>notes\<close>; the plugin has no icon of its own for
  any path. Its selector engine knows one fact of CSS: with the value \<^verbatim>\<open>a"b\<close> pasted in, the
  attribute selector is not a valid selector (no other such value is used).
\<close>

definition ex_host :: "string host" where
  "ex_host =
     \<lparr>new_RegExp = (\<lambda>src. if src = ''['' then Inl SyntaxError else Inr src),
      regex_test = (\<lambda>re t. js_includes t re),
      getAbstractFileByPath =
        (\<lambda>p. if p = ''notes/todo.md'' then Some (TFile p)
             else if p = ''notes'' then Some (TFolder p) else None),
      getIconNameFromPath = (\<lambda>p. None),
      getRegisteredFileExplorers = [[(TFile ''notes/todo.md'', 1), (TFolder ''notes'', 2)]],
      titleElOfPath = (\<lambda>p. None),
      selectorEngine =
        (\<lambda>v nodes. if v = [CHR ''a'', CHR 0x22, CHR ''b''] then Inl SyntaxError else Inr [])\<rparr>"

definition ex_rule :: "string \<Rightarrow> string \<Rightarrow> int \<Rightarrow> CustomRule" where
  "ex_rule src ic n =
     \<lparr>icon = ic, color = None, for' = ''everything'', rule = src, useFilePath = False,
      order = n\<rparr>"

text \<open>Settings whose rules are stored out of order.\<close>

definition ex_settings :: settings where
  "ex_settings = \<lparr>rules = [ex_rule ''b'' ''moon'' 2, ex_rule ''a'' ''star'' 1], iconIdentifier = '':''\<rparr>"

text \<open>An Icon Assignment Cache entry made by a custom rule.\<close>

definition ex_entry :: "string \<Rightarrow> IconCacheEntry" where
  "ex_entry ic = \<lparr>iconNameWithPrefix = ic, inCustomRule = True\<rparr>"

text \<open>
  A document with six icon nodes: one without a parent element, one whose parent has no
  \<^verbatim>\<open>data-path\<close>, one whose path is not in the vault, one on \<^verbatim>\<open>notes/todo.md\<close>, one with
  another icon on the same path, and one on the folder \<^verbatim>\<open>notes\<close>.
\<close>

definition ex_document :: "string state" where
  "ex_document =
     \<lparr>regexCache = Map.empty, compiled = [],
      iconCache = [''notes/todo.md'' \<mapsto> ex_entry ''star'', ''notes'' \<mapsto> ex_entry ''star''],
      icon_nodes =
        [\<lparr>node_icon = ''star'', parentElement = None\<rparr>,
         \<lparr>node_icon = ''star'', parentElement = Some 1\<rparr>,
         \<lparr>node_icon = ''star'', parentElement = Some 2\<rparr>,
         \<lparr>node_icon = ''star'', parentElement = Some 3\<rparr>,
         \<lparr>node_icon = ''moon'', parentElement = Some 4\<rparr>,
         \<lparr>node_icon = ''star'', parentElement = Some 5\<rparr>],
      data_path =
        (\<lambda>el. if el = 2 then Some ''gone.md''
              else if el = 3 \<or> el = 4 then Some ''notes/todo.md''
              else if el = 5 then Some ''notes'' else None),
      rendered = []\<rparr>"


text \<open>The state after one \<^verbatim>\<open>add\<close> of the rule \<open>todo\<close> to \<^verbatim>\<open>notes/todo.md\<close> with no container.\<close>

definition ex_added :: "string state" where
  "ex_added =
     \<lparr>regexCache = [''todo'' \<mapsto> Some ''todo''], compiled = [''todo''],
      iconCache = [''notes/todo.md'' \<mapsto> ex_entry ''star''], icon_nodes = [],
      data_path = (\<lambda>el. None), rendered = [(''notes/todo.md'', ''star'')]\<rparr>"

section \<open>The outline injector (the incremental injection pipeline)\<close>

subsection \<open>JavaScript values and string operations\<close>

text \<open>A JavaScript number, as far as the font size needs it: \<^verbatim>\<open>NaN\<close> or a value.\<close>

datatype js_number = NaN | Num real

text \<open>\<^verbatim>\<open>a ?? b\<close>: \<open>b\<close> only when \<open>a\<close> is \<^verbatim>\<open>null\<close> or \<^verbatim>\<open>undefined\<close> (here \<open>None\<close>).\<close>

definition nullish_or :: "'a option \<Rightarrow> 'a \<Rightarrow> 'a" where
  "nullish_or a b = (case a of None \<Rightarrow> b | Some v \<Rightarrow> v)"

text \<open>
  \<^verbatim>\<open>CSSStyleDeclaration.getPropertyValue\<close> over the declared properties of a computed
  style: the value, or the empty string when the property is not set. The result is
  always a string, never \<^verbatim>\<open>null\<close>.
\<close>

definition getPropertyValue :: "(string \<rightharpoonup> string) \<Rightarrow> string \<Rightarrow> string option" where
  "getPropertyValue style p = Some (case style p of None \<Rightarrow> [] | Some v \<Rightarrow> v)"

text \<open>\<^verbatim>\<open>s.substring(a, b)\<close>: both ends clamped to the string, swapped when out of order.\<close>

definition js_substring :: "string \<Rightarrow> int \<Rightarrow> int \<Rightarrow> string" where
  "js_substring s a b =
     (let n = int (length s);
          a1 = min (max a 0) n;
          b1 = min (max b 0) n;
          lo = min a1 b1;
          hi = max a1 b1
      in take (nat (hi - lo)) (drop (nat lo) s))"

text \<open>\<^verbatim>\<open>s.substring(a)\<close>: to the end of the string.\<close>

definition js_substring_from :: "string \<Rightarrow> int \<Rightarrow> string" where
  "js_substring_from s a = js_substring s a (int (length s))"

text \<open>\<^verbatim>\<open>s.slice(a, b)\<close>: a negative end counts from the end of the string.\<close>

definition js_slice :: "string \<Rightarrow> int \<Rightarrow> int \<Rightarrow> string" where
  "js_slice s a b =
     (let n = int (length s);
          from = (if a < 0 then max (n + a) 0 else min a n);
          to = (if b < 0 then max (n + b) 0 else min b n)
      in take (nat (to - from)) (drop (nat from) s))"

text \<open>The position of the first occurrence of \<open>pat\<close> in \<open>s\<close>, counted from \<open>k\<close>.\<close>

fun index_of :: "string \<Rightarrow> string \<Rightarrow> nat \<Rightarrow> nat option" where
  "index_of [] pat k = (if pat = [] then Some k else None)"
| "index_of (x # xs) pat k =
     (if take (length pat) (x # xs) = pat then Some k else index_of xs pat (Suc k))"

text \<open>
  The replacement text of \<^verbatim>\<open>replace\<close> with a string pattern: \<^verbatim>\<open>$$\<close> is a dollar sign, \<^verbatim>\<open>$&\<close>
  the matched text, \<^verbatim>\<open>$`\<close> what precedes it and \<^verbatim>\<open>$'\<close> what follows it; a string pattern has
  no captures, so every other \<^verbatim>\<open>$\<close> stands for itself.
\<close>

fun get_substitution :: "string \<Rightarrow> string \<Rightarrow> string \<Rightarrow> string \<Rightarrow> string" where
  "get_substitution m pre post (c # d # rest) =
     (if c = CHR ''$'' \<and> d = CHR ''$'' then CHR ''$'' # get_substitution m pre post rest
      else if c = CHR ''$'' \<and> d = CHR ''&'' then m @ get_substitution m pre post rest
      else if c = CHR ''$'' \<and> d = CHR 0x60 then pre @ get_substitution m pre post rest
      else if c = CHR ''$'' \<and> d = CHR 0x27 then post @ get_substitution m pre post rest
      else c # get_substitution m pre post (d # rest))"
| "get_substitution m pre post rest = rest"

text \<open>\<^verbatim>\<open>s.replace(pat, rep)\<close> with a string pattern: the first occurrence only.\<close>

definition js_replace :: "string \<Rightarrow> string \<Rightarrow> string \<Rightarrow> string" where
  "js_replace s pat rep =
     (case index_of s pat 0 of
        None \<Rightarrow> s
      | Some k \<Rightarrow>
          take k s @ get_substitution pat (take k s) (drop (k + length pat) s) rep @
          drop (k + length pat) s)"

subsection \<open>Data model of the injector\<close>

text \<open>A \<^verbatim>\<open>MutationRecord\<close>: its \<^verbatim>\<open>type\<close> and its \<^verbatim>\<open>addedNodes\<close> (node ids).\<close>

record MutationRecord =
  mutation_type :: string
  addedNodes :: "nat list"

text \<open>
  What the injector reads from its surroundings: the shortcode pattern the settings give
  (\<^verbatim>\<open>createIconShortcodeRegex\<close>) and its matches in a text, each the matched text and its
  index (\<^verbatim>\<open>matchAll\<close>); the settings (for \<^verbatim>\<open>iconIdentifier\<close>); the icon registry; the
  \<^verbatim>\<open>outerHTML\<close> of the span built for an icon name, an icon and a font size; the text of an
  element as a function of its \<^verbatim>\<open>innerHTML\<close>; \<^verbatim>\<open>parseFloat\<close>; the declared properties of the
  body's computed style; \<^verbatim>\<open>requireApiVersion('1.7.2')\<close>; the tree container of the outline
  leaf (none when there is no leaf); and the structure of the document: whether a node
  is an \<^verbatim>\<open>HTMLElement\<close>, whether it has the class \<^verbatim>\<open>tree-item-self\<close>, its first descendant
  of class \<^verbatim>\<open>tree-item-inner\<close> and its descendants of class \<^verbatim>\<open>tree-item-self\<close>.
\<close>

record ('rx, 'i) outline_host =
  createIconShortcodeRegex :: 'rx
  matchAll :: "'rx \<Rightarrow> string \<Rightarrow> (string \<times> int) list"
  getSettings :: settings
  getIconByName :: "string \<Rightarrow> 'i option"
  iconSpanOuterHTML :: "string \<Rightarrow> 'i \<Rightarrow> js_number \<Rightarrow> string"
  getText :: "string \<Rightarrow> string"
  parseFloat :: "string \<Rightarrow> js_number"
  bodyStyle :: "string \<rightharpoonup> string"
  requireApiVersion :: bool
  leafContainerEl :: "nat option"
  isHTMLElement :: "nat \<Rightarrow> bool"
  hasTreeItemClass :: "nat \<Rightarrow> bool"
  querySelectorInner :: "nat \<Rightarrow> nat option"
  querySelectorAllItems :: "nat \<Rightarrow> nat list"

text \<open>
  The injector's fields (\<open>observer\<close>, the two caches, \<open>registered\<close>) and the part of the
  world it acts on: whether the outline feature is enabled; the mutation observers
  attached to the region, by id, in the order they were attached; how many observers
  have been constructed; the continuations waiting for the deferred leaf to load; the
  \<^verbatim>\<open>once('allIconsLoaded')\<close> handlers waiting for the signal; and the \<^verbatim>\<open>innerHTML\<close> of every
  element. \<open>scanned\<close> is instrumentation: the argument of every \<^verbatim>\<open>processTreeItemInner\<close>
  call, oldest first.
\<close>

record 'rx outline =
  observer :: "nat option"
  cachedIconShortcodeRegex :: "'rx option"
  cachedNavItemSize :: "js_number option"
  registered :: bool
  enabled :: bool
  observing :: "nat list"
  constructed :: nat
  deferred :: nat
  listeners :: nat
  innerHTML :: "nat \<Rightarrow> string"
  scanned :: "nat option list"

subsection \<open>The label scan\<close>

definition getIconShortcodeRegex ::
  "('rx, 'i) outline_host \<Rightarrow> 'rx outline \<Rightarrow> 'rx \<times> 'rx outline" where
  "getIconShortcodeRegex h s =
     (case cachedIconShortcodeRegex s of
        None \<Rightarrow>
          (createIconShortcodeRegex h,
           s\<lparr>cachedIconShortcodeRegex := Some (createIconShortcodeRegex h)\<rparr>)
      | Some rx \<Rightarrow> (rx, s))"

definition getNavItemSize ::
  "('rx, 'i) outline_host \<Rightarrow> 'rx outline \<Rightarrow> js_number \<times> 'rx outline" where
  "getNavItemSize h s =
     (case cachedNavItemSize s of
        None \<Rightarrow>
          (let v = parseFloat h
                     (nullish_or (getPropertyValue (bodyStyle h) ''--nav-item-size'') ''16'')
           in (v, s\<lparr>cachedNavItemSize := Some v\<rparr>))
      | Some v \<Rightarrow> (v, s))"

text \<open>
  The body of the loop of \<^verbatim>\<open>processTreeItemInner\<close> for one match \<open>code\<close> (its text and its
  index in the original label), on the loop's variables \<open>text\<close> and \<open>trimmedLength\<close> and
  the state.
\<close>

definition processTreeItemInner_body ::
  "('rx, 'i) outline_host \<Rightarrow> nat \<Rightarrow> nat \<Rightarrow> string \<times> int \<Rightarrow>
     string \<times> int \<times> 'rx outline \<Rightarrow> string \<times> int \<times> 'rx outline" where
  "processTreeItemInner_body h treeItemInner iconIdentifierLength code st =
     (case st of (text, trimmedLength, s) \<Rightarrow>
        (let shortcode = fst code;
             iconName = js_slice shortcode (int iconIdentifierLength)
                          (int (length shortcode) - int iconIdentifierLength)
         in case getIconByName h iconName of
              None \<Rightarrow> (text, trimmedLength, s)
            | Some iconObject \<Rightarrow>
                (let startIndex = snd code - trimmedLength;
                     endIndex = snd code + int (length shortcode) - trimmedLength;
                     str = js_substring text 0 startIndex @ js_substring_from text endIndex;
                     (fontSize, s1) = getNavItemSize h s;
                     iconSpan = iconSpanOuterHTML h iconName iconObject fontSize;
                     s2 = s1\<lparr>innerHTML := (innerHTML s1)
                            (treeItemInner :=
                               js_replace (innerHTML s1 treeItemInner) shortcode iconSpan)\<rparr>
                 in (str, trimmedLength + int (length shortcode), s2))))"

fun processTreeItemInner_loop ::
  "('rx, 'i) outline_host \<Rightarrow> nat \<Rightarrow> nat \<Rightarrow> (string \<times> int) list \<Rightarrow>
     string \<times> int \<times> 'rx outline \<Rightarrow> string \<times> int \<times> 'rx outline" where
  "processTreeItemInner_loop h treeItemInner n [] st = st"
| "processTreeItemInner_loop h treeItemInner n (code # codes) st =
     processTreeItemInner_loop h treeItemInner n codes
       (processTreeItemInner_body h treeItemInner n code st)"

text \<open>
  \<^verbatim>\<open>processTreeItemInner\<close>: nothing for \<^verbatim>\<open>null\<close> or an empty text; else the matches of the
  cached pattern in the text, sorted by index (a stable sort), are run through the loop.
\<close>

definition processTreeItemInner ::
  "('rx, 'i) outline_host \<Rightarrow> nat option \<Rightarrow> 'rx outline \<Rightarrow> 'rx outline" where
  "processTreeItemInner h treeItemInner s =
     (let s0 = s\<lparr>scanned := scanned s @ [treeItemInner]\<rparr> in
      case treeItemInner of
        None \<Rightarrow> s0
      | Some el \<Rightarrow>
          (let text = getText h (innerHTML s0 el) in
           if text = [] then s0
           else
             (let (iconShortcodeRegex, s1) = getIconShortcodeRegex h s0;
                  iconIdentifierLength = length (iconIdentifier (getSettings h));
                  codes = sort_key snd (matchAll h iconShortcodeRegex text)
              in snd (snd (processTreeItemInner_loop h el iconIdentifierLength codes
                             (text, 0, s1))))))"

subsection \<open>Registration and the mutation callback\<close>

text \<open>\<^verbatim>\<open>observer.disconnect()\<close>: the observer no longer watches the region.\<close>

definition disconnect :: "nat \<Rightarrow> 'rx outline \<Rightarrow> 'rx outline" where
  "disconnect ob s = s\<lparr>observing := removeAll ob (observing s)\<rparr>"

text \<open>
  The loop over tree items, each scanned through its first \<^verbatim>\<open>tree-item-inner\<close> descendant:
  the body of \<^verbatim>\<open>processTreeItems\<close>, and of the callback's branch for an added node that is
  not a tree item itself.
\<close>

fun processTreeItems_loop ::
  "('rx, 'i) outline_host \<Rightarrow> nat list \<Rightarrow> 'rx outline \<Rightarrow> 'rx outline" where
  "processTreeItems_loop h [] s = s"
| "processTreeItems_loop h (treeItem # treeItems) s =
     processTreeItems_loop h treeItems
       (processTreeItemInner h (querySelectorInner h treeItem) s)"

definition processTreeItems ::
  "('rx, 'i) outline_host \<Rightarrow> nat \<Rightarrow> 'rx outline \<Rightarrow> 'rx outline" where
  "processTreeItems h rootEl s = processTreeItems_loop h (querySelectorAllItems h rootEl) s"

text \<open>The callback's loop over the added nodes of one mutation record.\<close>

fun callback_addedNodes ::
  "('rx, 'i) outline_host \<Rightarrow> nat list \<Rightarrow> 'rx outline \<Rightarrow> 'rx outline" where
  "callback_addedNodes h [] s = s"
| "callback_addedNodes h (node # nodes) s =
     callback_addedNodes h nodes
       (if \<not> isHTMLElement h node then s
        else if hasTreeItemClass h node
        then processTreeItemInner h (querySelectorInner h node) s
        else processTreeItems_loop h (querySelectorAllItems h node) s)"

text \<open>The callback's loop over the mutation records of a batch.\<close>

fun callback_mutations ::
  "('rx, 'i) outline_host \<Rightarrow> MutationRecord list \<Rightarrow> 'rx outline \<Rightarrow> 'rx outline" where
  "callback_mutations h [] s = s"
| "callback_mutations h (mutation # mutations) s =
     callback_mutations h mutations
       (if mutation_type mutation \<noteq> ''childList'' \<or> addedNodes mutation = [] then s
        else callback_addedNodes h (addedNodes mutation) s)"

text \<open>
  The callback given to every \<^verbatim>\<open>MutationObserver\<close>. It reads \<^verbatim>\<open>this.enabled\<close> once, before
  the batch; when the feature is off it disconnects the observer the injector holds (if
  any), forgets it and returns.
\<close>

definition callback ::
  "('rx, 'i) outline_host \<Rightarrow> MutationRecord list \<Rightarrow> 'rx outline \<Rightarrow> 'rx outline" where
  "callback h mutations s =
     (if \<not> enabled s
      then (case observer s of None \<Rightarrow> s | Some ob \<Rightarrow> disconnect ob s)\<lparr>observer := None\<rparr>
      else callback_mutations h mutations s)"

text \<open>
  The handler \<^verbatim>\<open>setOutlineIcons\<close> registers with \<^verbatim>\<open>once('allIconsLoaded', ...)\<close>: it
  invalidates the caches, scans the tree, constructs a new observer and attaches it.
  Without a leaf, \<^verbatim>\<open>this.leaf.view\<close> throws after the caches have been invalidated.
\<close>

definition onAllIconsLoaded ::
  "('rx, 'i) outline_host \<Rightarrow> 'rx outline \<Rightarrow> 'rx outline \<times> js_error option" where
  "onAllIconsLoaded h s =
     (let s1 = s\<lparr>cachedIconShortcodeRegex := None, cachedNavItemSize := None\<rparr> in
      case leafContainerEl h of
        None \<Rightarrow> (s1, Some TypeError)
      | Some containerEl \<Rightarrow>
          (let s2 = processTreeItems h containerEl s1;
               ob = constructed s2;
               s3 = s2\<lparr>observer := Some ob, constructed := Suc ob\<rparr>
           in (s3\<lparr>observing := observing s3 @ [ob]\<rparr>, None)))"

text \<open>\<^verbatim>\<open>setOutlineIcons\<close>: one more handler waits for the signal.\<close>

definition setOutlineIcons :: "'rx outline \<Rightarrow> 'rx outline" where
  "setOutlineIcons s = s\<lparr>listeners := Suc (listeners s)\<rparr>"

text \<open>
  \<^verbatim>\<open>register\<close>. With a host API of 1.7.2 or later \<^verbatim>\<open>setOutlineIcons\<close> runs when the deferred
  leaf has loaded (\<^verbatim>\<open>this.leaf.loadIfDeferred()\<close> throws without a leaf), else at once.
\<close>

definition register ::
  "('rx, 'i) outline_host \<Rightarrow> 'rx outline \<Rightarrow> 'rx outline \<times> js_error option" where
  "register h s =
     (if \<not> enabled s then (s, None)
      else
        (let s1 = (case observer s of
                     Some ob \<Rightarrow> if registered s then (disconnect ob s)\<lparr>observer := None\<rparr> else s
                   | None \<Rightarrow> s);
             s2 = s1\<lparr>registered := True\<rparr>
         in if requireApiVersion h
            then (case leafContainerEl h of
                    None \<Rightarrow> (s2, Some TypeError)
                  | Some containerEl \<Rightarrow> (s2\<lparr>deferred := Suc (deferred s2)\<rparr>, None))
            else (setOutlineIcons s2, None)))"

subsection \<open>The injector in its surroundings\<close>

text \<open>
  What can happen to the injector: a \<^verbatim>\<open>register\<close> call, a deferred leaf that has loaded,
  the \<^verbatim>\<open>allIconsLoaded\<close> signal, a batch of mutation records in the watched region, and the
  user switching the outline feature on or off.
\<close>

datatype event =
  Register | LeafLoaded | AllIconsLoaded | Mutations "MutationRecord list" | SetEnabled bool

text \<open>The signal runs every waiting handler once, in the order of registration.\<close>

fun run_listeners :: "('rx, 'i) outline_host \<Rightarrow> nat \<Rightarrow> 'rx outline \<Rightarrow> 'rx outline" where
  "run_listeners h 0 s = s"
| "run_listeners h (Suc k) s = run_listeners h k (fst (onAllIconsLoaded h s))"

text \<open>
  A batch is delivered to the observers that were attached when it arose, in the order
  they were attached; one that has been disconnected in the meantime is not called.
\<close>

fun deliver ::
  "('rx, 'i) outline_host \<Rightarrow> MutationRecord list \<Rightarrow> nat list \<Rightarrow> 'rx outline \<Rightarrow> 'rx outline" where
  "deliver h ms [] s = s"
| "deliver h ms (ob # obs) s =
     deliver h ms obs (if ob \<in> set (observing s) then callback h ms s else s)"

fun step :: "('rx, 'i) outline_host \<Rightarrow> event \<Rightarrow> 'rx outline \<Rightarrow> 'rx outline" where
  "step h Register s = fst (register h s)"
| "step h LeafLoaded s =
     (if deferred s = 0 then s else setOutlineIcons (s\<lparr>deferred := deferred s - 1\<rparr>))"
| "step h AllIconsLoaded s = run_listeners h (listeners s) (s\<lparr>listeners := 0\<rparr>)"
| "step h (Mutations ms) s = deliver h ms (observing s) s"
| "step h (SetEnabled b) s = s\<lparr>enabled := b\<rparr>"

fun run :: "('rx, 'i) outline_host \<Rightarrow> event list \<Rightarrow> 'rx outline \<Rightarrow> 'rx outline" where
  "run h [] s = s"
| "run h (e # es) s = run h es (step h e s)"

subsection \<open>Notions used to state the properties of the injector\<close>

text \<open>The icon a match resolves to: the registry's answer for the token without its delimiters.\<close>

definition icon_of :: "('rx, 'i) outline_host \<Rightarrow> nat \<Rightarrow> string \<times> int \<Rightarrow> 'i option" where
  "icon_of h n code =
     getIconByName h (js_slice (fst code) (int n) (int (length (fst code)) - int n))"





text \<open>An event that is neither a registration nor a signal to the handlers of one.\<close>

fun no_registration :: "event \<Rightarrow> bool" where
  "no_registration (Mutations ms) = True"
| "no_registration (SetEnabled b) = True"
| "no_registration e = False"

text \<open>
  What the scan of a label leaves alone: the observer, the flags, the attached observers
  and the waiting handlers.
\<close>

definition same_control :: "'rx outline \<Rightarrow> 'rx outline \<Rightarrow> bool" where
  "same_control s s' =
     (observer s' = observer s \<and> registered s' = registered s \<and> enabled s' = enabled s \<and>
      observing s' = observing s \<and> constructed s' = constructed s \<and>
      deferred s' = deferred s \<and> listeners s' = listeners s)"

subsection \<open>Example values for the injector\<close>

text \<open>
  A host for the examples: the delimiter is \<^verbatim>\<open>:\<close>, the registry knows the icons \<^verbatim>\<open>one\<close> and
  \<^verbatim>\<open>two\<close>, the label \<^verbatim>\<open>a :one: b :two: c\<close> has its two shortcodes at 2 and 10 and the label
  \<^verbatim>\<open>x :no: y :two:\<close> at 2 and 9, the span shows the icon name and whether its font size is a
  number, the body's computed style declares no property, \<^verbatim>\<open>parseFloat\<close> knows \<^verbatim>\<open>16\<close> and
  that the empty string is not a number, and the outline tree (element 0) holds two tree
  items (1 and 2) with the labels 11 and 12.
\<close>

definition ex_outline_host :: "(unit, string) outline_host" where
  "ex_outline_host =
     \<lparr>createIconShortcodeRegex = (),
      matchAll =
        (\<lambda>rx t. if t = ''a :one: b :two: c'' then [('':two:'', 10), ('':one:'', 2)]
                else if t = ''x :no: y :two:'' then [('':no:'', 2), ('':two:'', 9)] else []),
      getSettings = \<lparr>rules = [], iconIdentifier = '':''\<rparr>,
      getIconByName = (\<lambda>name. if name = ''one'' \<or> name = ''two'' then Some name else None),
      iconSpanOuterHTML =
        (\<lambda>name ic size. ''<'' @ name @ (case size of NaN \<Rightarrow> '' NaN'' | Num v \<Rightarrow> '' px'') @ ''>''),
      getText = (\<lambda>html. html),
      parseFloat = (\<lambda>str. if str = ''16'' then Num 16 else NaN),
      bodyStyle = Map.empty,
      requireApiVersion = False,
      leafContainerEl = Some 0,
      isHTMLElement = (\<lambda>node. True),
      hasTreeItemClass = (\<lambda>node. node = 1 \<or> node = 2),
      querySelectorInner = (\<lambda>node. if node = 1 then Some 11 else if node = 2 then Some 12 else None),
      querySelectorAllItems = (\<lambda>node. if node = 0 then [1, 2] else [])\<rparr>"

text \<open>The injector before its first registration, the feature enabled.\<close>

definition ex_outline :: "unit outline" where
  "ex_outline =
     \<lparr>observer = None, cachedIconShortcodeRegex = None, cachedNavItemSize = None,
      registered = False, enabled = True, observing = [], constructed = 0, deferred = 0,
      listeners = 0,
      innerHTML = (\<lambda>el. if el = 11 then ''a :one: b :two: c''
                       else if el = 12 then ''x :no: y :two:'' else []),
      scanned = []\<rparr>"

text \<open>
  The injector of the examples after a registration and the signal, the feature then
  switched off: observer 0 is attached.
\<close>

definition ex_disabled :: "unit outline" where
  "ex_disabled = run ex_outline_host [Register, AllIconsLoaded, SetEnabled False] ex_outline"

section \<open>Properties of the rule-matching engine\<close>

lemma split_on_not_Nil: "split_on c xs \<noteq> []"
  by (induction xs) (auto split: list.splits)

text \<open>\<^verbatim>\<open>p.split('/').pop()\<close> is the final path segment.\<close>

lemma last_split_on: "last (split_on c xs) = rev (takeWhile (\<lambda>x. x \<noteq> c) (rev xs))"
proof (induction xs)
  case Nil
  show ?case by simp
next
  case (Cons x xs)
  show ?case
  proof (cases "c \<in> set xs")
    case True
    then have "takeWhile (\<lambda>x. x \<noteq> c) (rev xs @ [x]) = takeWhile (\<lambda>x. x \<noteq> c) (rev xs)"
      by (intro takeWhile_append1[of c]) auto
    moreover have "length (split_on c xs) \<ge> 2" using True
      by (induction xs) (auto split: list.splits if_splits simp: split_on_not_Nil)
    ultimately show ?thesis using Cons
      by (cases "split_on c xs") (auto split: list.splits)
  next
    case False
    then have sp: "split_on c xs = [xs]"
      by (induction xs) (auto split: list.splits)
    from False have "takeWhile (\<lambda>x. x \<noteq> c) (rev xs @ [x]) = rev xs @ takeWhile (\<lambda>x. x \<noteq> c) [x]"
      by (intro takeWhile_append2) auto
    then show ?thesis using sp by auto
  qed
qed

text \<open>\<^verbatim>\<open>includes\<close> is containment as a contiguous sublist.\<close>

lemma take_eq_prefix: "(take (length s) t = s) = prefix s t"
  by (metis append_eq_conv_conj prefix_def take_is_prefix)

lemma js_includes_sublist: "js_includes t s = sublist s t"
  by (induction t) (auto simp: sublist_Cons_right take_eq_prefix simp del: take_Suc_Cons)

text \<open>
  \<^verbatim>\<open>doesMatchPath\<close> in one equation: it returns, in every state; its verdict is the test of
  the resolved entry on the comparison subject, and the state it leaves has the entry.
\<close>

lemma doesMatchPath_eq:
  "doesMatchPath h r p s =
     Inr (match_with h (resolve h s (rule r)) (rule r) (comparison_subject r p),
          ensure_entry h (rule r) s)"
  by (auto simp: doesMatchPath_def match_with_def resolve_def ensure_entry_def compile_entry_def
      comparison_subject_def final_segment_def last_split_on Let_def
      split: sum.splits option.splits)

lemma cache_ok_ensure: "cache_ok h s \<Longrightarrow> cache_ok h (ensure_entry h k s)"
  by (auto simp: cache_ok_def ensure_entry_def)

lemma log_ok_ensure: "log_ok s \<Longrightarrow> log_ok (ensure_entry h k s)"
  by (auto simp: log_ok_def ensure_entry_def)

lemma resolve_cache_ok: "cache_ok h s \<Longrightarrow> resolve h s k = compile_entry h k"
  by (auto simp: cache_ok_def resolve_def split: option.splits)

lemma cache_ok_empty: "regexCache s = Map.empty \<Longrightarrow> cache_ok h s"
  by (simp add: cache_ok_def)

lemma log_ok_empty: "regexCache s = Map.empty \<Longrightarrow> compiled s = [] \<Longrightarrow> log_ok s"
  by (simp add: log_ok_def)

lemma doesMatchPath_calls_run:
  "cache_ok h s \<Longrightarrow>
   \<exists>s'. doesMatchPath_calls h cs s = Inr (map (matches_compiled h) cs, s') \<and>
        cache_ok h s' \<and> (log_ok s \<longrightarrow> log_ok s') \<and>
        dom (regexCache s') = dom (regexCache s) \<union> (\<lambda>c. rule (fst c)) ` set cs"
proof (induction cs arbitrary: s)
  case Nil
  then show ?case by simp
next
  case (Cons c cs)
  let ?s1 = "ensure_entry h (rule (fst c)) s"
  have ok: "cache_ok h ?s1"
    using Cons.prems by (simp add: cache_ok_ensure)
  from Cons.IH[OF ok] obtain s' where
    run: "doesMatchPath_calls h cs ?s1 = Inr (map (matches_compiled h) cs, s')"
    and s': "cache_ok h s'" "log_ok ?s1 \<longrightarrow> log_ok s'"
    and d: "dom (regexCache s') = dom (regexCache ?s1) \<union> (\<lambda>c. rule (fst c)) ` set cs"
    by blast
  have d1: "dom (regexCache ?s1) = insert (rule (fst c)) (dom (regexCache s))"
    by (auto simp: ensure_entry_def)
  have r: "doesMatchPath_calls h (c # cs) s = Inr (map (matches_compiled h) (c # cs), s')"
    using run Cons.prems(1)
    by (simp add: doesMatchPath_eq resolve_cache_ok matches_compiled_def)
  have l: "log_ok s \<longrightarrow> log_ok s'"
    using s'(2) log_ok_ensure[of s h "rule (fst c)"] by blast
  have "dom (regexCache s') = dom (regexCache s) \<union> (\<lambda>c. rule (fst c)) ` set (c # cs)"
    using d d1 by simp
  with r s'(1) l show ?case by blast
qed

text \<open>
  Claim C6. For every rule and path, \<^verbatim>\<open>isApplicable\<close> returns true iff the vault has an entry
  for the path, the rule's \<^verbatim>\<open>for\<close> field matches the entry's type (\<^verbatim>\<open>'everything'\<close>, or
  \<^verbatim>\<open>'files'\<close> and a file, or \<^verbatim>\<open>'folders'\<close> and a folder), and \<^verbatim>\<open>doesMatchPath\<close> holds; the
  verdict \<open>m\<close> of \<^verbatim>\<open>doesMatchPath\<close> is the test of the resolved cache entry on the full path
  when \<^verbatim>\<open>useFilePath\<close> is set and on the final path segment otherwise.
\<close>

theorem isApplicable_iff:
  "\<exists>m s1 s'. doesMatchPath h r p s = Inr (m, s1) \<and>
      m = match_with h (resolve h s (rule r)) (rule r)
            (if useFilePath r then p else final_segment p) \<and>
      isApplicable h r p s =
        Inr ((\<exists>f. getAbstractFileByPath h p = Some f \<and>
                (for' r = ''everything'' \<or>
                 (for' r = ''files'' \<and> (\<exists>q. f = TFile q)) \<or>
                 (for' r = ''folders'' \<and> (\<exists>q. f = TFolder q)))) \<and> m, s')"
proof (cases "getAbstractFileByPath h p")
  case None
  then show ?thesis
    by (simp add: isApplicable_def doesMatchPath_eq comparison_subject_def)
next
  case (Some f)
  then show ?thesis
    by (cases f)
       (auto simp: isApplicable_def doesMatchPath_eq comparison_subject_def doesMatchFileType_def)
qed

text \<open>A file rule on \<^verbatim>\<open>notes/todo.md\<close>: the test runs on \<^verbatim>\<open>todo.md\<close>.\<close>

lemma isApplicable_example:
  "isApplicable ex_host ((ex_rule ''.md'' ''star'' 0)\<lparr>for' := ''files''\<rparr>) ''notes/todo.md'' init_state =
     Inr (True, init_state\<lparr>regexCache := [''.md'' \<mapsto> Some ''.md''], compiled := [''.md'']\<rparr>)"
  by (simp add: isApplicable_def doesMatchPath_def doesMatchFileType_def ex_host_def ex_rule_def init_state_def)

text \<open>
  Claim C4. For a rule whose pattern string does not compile, and every path,
  \<^verbatim>\<open>doesMatchPath\<close> never raises: in every state it returns a verdict. From an empty
  Pattern Cache and after any sequence of earlier calls (none of which raises), the call
  returns the containment of the raw rule string in the comparison subject and leaves the
  fallback marker (\<^verbatim>\<open>null\<close>) as the entry.
\<close>

theorem doesMatchPath_invalid_pattern:
  assumes "regexCache s0 = Map.empty" and "new_RegExp h (rule r) = Inl e"
  shows "\<exists>bs s s'. doesMatchPath_calls h cs s0 = Inr (bs, s) \<and>
           doesMatchPath h r p s = Inr (js_includes (comparison_subject r p) (rule r), s') \<and>
           regexCache s' (rule r) = Some None \<and>
           (\<forall>t. \<exists>b t'. doesMatchPath h r p t = Inr (b, t'))"
proof -
  from doesMatchPath_calls_run[OF cache_ok_empty[OF assms(1)], where cs = cs] obtain s where
    run: "doesMatchPath_calls h cs s0 = Inr (map (matches_compiled h) cs, s)" and ok: "cache_ok h s"
    by blast
  have c: "compile_entry h (rule r) = None"
    using assms(2) by (simp add: compile_entry_def)
  have "doesMatchPath h r p s =
          Inr (js_includes (comparison_subject r p) (rule r), ensure_entry h (rule r) s)"
    by (simp add: doesMatchPath_eq resolve_cache_ok[OF ok] c match_with_def)
  moreover have "regexCache (ensure_entry h (rule r) s) (rule r) = Some None"
    using ok c by (auto simp: ensure_entry_def cache_ok_def)
  ultimately show ?thesis using run by (simp add: doesMatchPath_eq)
qed

theorem doesMatchPath_invalid_pattern_witness:
  "regexCache (init_state :: string state) = Map.empty \<and>
   new_RegExp ex_host (rule (ex_rule ''['' ''star'' 0)) = Inl SyntaxError \<and>
   (\<exists>bs s s'. doesMatchPath_calls ex_host
        [(ex_rule ''todo'' ''star'' 0, ''notes/todo.md''), (ex_rule ''['' ''star'' 0, ''a/b'')]
        init_state = Inr (bs, s) \<and>
      doesMatchPath ex_host (ex_rule ''['' ''star'' 0) ''notes/x[y'' s = Inr (True, s') \<and>
      regexCache s' ''['' = Some None)"
proof -
  have 1: "regexCache (init_state :: string state) = Map.empty"
    by (simp add: init_state_def)
  have 2: "new_RegExp ex_host (rule (ex_rule ''['' ''star'' 0)) = Inl SyntaxError"
    by (simp add: ex_host_def ex_rule_def)
  have 3: "js_includes (comparison_subject (ex_rule ''['' ''star'' 0) ''notes/x[y'')
             (rule (ex_rule ''['' ''star'' 0))"
    by (simp add: comparison_subject_def final_segment_def ex_rule_def)
  have 4: "rule (ex_rule ''['' ''star'' 0) = ''[''"
    by (simp add: ex_rule_def)
  from doesMatchPath_invalid_pattern[OF 1 2,
      where cs = "[(ex_rule ''todo'' ''star'' 0, ''notes/todo.md''), (ex_rule ''['' ''star'' 0, ''a/b'')]"
      and p = "''notes/x[y''"]
  show ?thesis unfolding 4 using 1 2 3 unfolding 4 by auto
qed

text \<open>
  Claim C5. The Pattern Cache compiles each distinct pattern string at most once: after
  any sequence of \<^verbatim>\<open>doesMatchPath\<close> calls from the empty cache, the log of \<^verbatim>\<open>new RegExp\<close>
  calls has no string twice and holds exactly the rule strings used; every entry is what
  its string compiles to (the compiled matcher, or the fallback marker); a further call
  with a string in the cache, from whatever rule, leaves the state as it is (nothing is
  compiled), and a call with a new string compiles it once and creates its entry. The
  verdicts are those of the compiled matchers.
\<close>

theorem regexCache_compiles_once:
  assumes "regexCache s0 = Map.empty" and "compiled s0 = []"
  shows "\<exists>s. doesMatchPath_calls h cs s0 = Inr (map (matches_compiled h) cs, s) \<and>
           distinct (compiled s) \<and>
           set (compiled s) = (\<lambda>c. rule (fst c)) ` set cs \<and>
           (\<forall>k. regexCache s k =
                  (if k \<in> set (compiled s) then Some (compile_entry h k) else None)) \<and>
           (\<forall>r p. rule r \<in> set (compiled s) \<longrightarrow>
                  (\<exists>b. doesMatchPath h r p s = Inr (b, s))) \<and>
           (\<forall>r p. rule r \<notin> set (compiled s) \<longrightarrow>
                  (\<exists>b s'. doesMatchPath h r p s = Inr (b, s') \<and>
                     compiled s' = compiled s @ [rule r] \<and>
                     regexCache s' (rule r) = Some (compile_entry h (rule r))))"
proof -
  from doesMatchPath_calls_run[OF cache_ok_empty[OF assms(1)], where cs = cs]
    log_ok_empty[OF assms] obtain s where
    run: "doesMatchPath_calls h cs s0 = Inr (map (matches_compiled h) cs, s)"
    and ok: "cache_ok h s" and lg: "log_ok s"
    and d: "dom (regexCache s) = dom (regexCache s0) \<union> (\<lambda>c. rule (fst c)) ` set cs"
    by blast
  have dist: "distinct (compiled s)" and st: "set (compiled s) = dom (regexCache s)"
    using lg by (simp_all add: log_ok_def)
  have keys: "set (compiled s) = (\<lambda>c. rule (fst c)) ` set cs"
    using st d assms(1) by simp
  have entries: "\<forall>k. regexCache s k =
      (if k \<in> set (compiled s) then Some (compile_entry h k) else None)"
    using ok st by (auto simp: cache_ok_def dom_def)
  have reuse: "\<forall>r p. rule r \<in> set (compiled s) \<longrightarrow> (\<exists>b. doesMatchPath h r p s = Inr (b, s))"
    using st by (auto simp: doesMatchPath_eq ensure_entry_def)
  have first: "\<forall>r p. rule r \<notin> set (compiled s) \<longrightarrow>
      (\<exists>b s'. doesMatchPath h r p s = Inr (b, s') \<and> compiled s' = compiled s @ [rule r] \<and>
         regexCache s' (rule r) = Some (compile_entry h (rule r)))"
    using st by (auto simp: doesMatchPath_eq ensure_entry_def)
  from run dist keys entries reuse first show ?thesis by blast
qed

theorem regexCache_compiles_once_witness:
  "regexCache (init_state :: string state) = Map.empty \<and>
   compiled (init_state :: string state) = [] \<and>
   (\<exists>s. doesMatchPath_calls ex_host
        [(ex_rule ''todo'' ''star'' 0, ''notes/todo.md''), (ex_rule ''['' ''star'' 0, ''a/b''),
         (ex_rule ''todo'' ''moon'' 1, ''notes'')] init_state = Inr ([True, False, False], s) \<and>
      compiled s = [''todo'', ''[''] \<and>
      regexCache s ''todo'' = Some (Some ''todo'') \<and> regexCache s ''['' = Some None)"
  using regexCache_compiles_once[of "init_state :: string state" ex_host
      "[(ex_rule ''todo'' ''star'' 0, ''notes/todo.md''), (ex_rule ''['' ''star'' 0, ''a/b''),
         (ex_rule ''todo'' ''moon'' 1, ''notes'')]"]
  by (simp add: init_state_def ex_host_def ex_rule_def doesMatchPath_def)

section \<open>Properties of the rule application service\<close>

text \<open>
  Claim C9, as stated, fails: the stored rules \<open>[order 2, order 1]\<close> are \<open>[order 1, order 2]\<close>
  after the call, so the settings are not what they were.
\<close>

theorem getSortedRules_mutates_settings:
  "getSortedRules ex_settings =
     ([ex_rule ''a'' ''star'' 1, ex_rule ''b'' ''moon'' 2],
      \<lparr>rules = [ex_rule ''a'' ''star'' 1, ex_rule ''b'' ''moon'' 2], iconIdentifier = '':''\<rparr>) \<and>
   snd (getSortedRules ex_settings) \<noteq> ex_settings"
  by (simp add: getSortedRules_def ex_settings_def ex_rule_def Let_def)

text \<open>
  Claim C9, amended. \<^verbatim>\<open>getSortedRules\<close> returns the rules ordered ascending by \<^verbatim>\<open>order\<close>, the
  same rules as before, with ties kept in their original order; it sorts the settings'
  array in place, so after the call the settings hold the returned, sorted list (and are
  otherwise unchanged).
\<close>

theorem getSortedRules_sorts_in_place:
  "sorted (map order (fst (getSortedRules st))) \<and>
   mset (fst (getSortedRules st)) = mset (rules st) \<and>
   (\<forall>k. filter (\<lambda>r. order r = k) (fst (getSortedRules st)) =
        filter (\<lambda>r. order r = k) (rules st)) \<and>
   snd (getSortedRules st) = st\<lparr>rules := fst (getSortedRules st)\<rparr>"
  by (simp add: getSortedRules_def sort_key_stable Let_def)

lemma resolve_ensure [simp]: "resolve h (ensure_entry h k s) k' = resolve h s k'"
  by (auto simp: resolve_def ensure_entry_def split: option.splits)

lemma ensure_fields [simp]:
  "icon_nodes (ensure_entry h k s) = icon_nodes s"
  "data_path (ensure_entry h k s) = data_path s"
  "iconCache (ensure_entry h k s) = iconCache s"
  "rendered (ensure_entry h k s) = rendered s"
  by (simp_all add: ensure_entry_def)

lemma still_matches_cong:
  "data_path s' = data_path s \<Longrightarrow> resolve h s' (rule r) = resolve h s (rule r) \<Longrightarrow>
   still_matches h s' r = still_matches h s r"
  by (rule ext) (simp add: still_matches_def owning_path_def split: option.splits)

lemma single_icon_unique:
  assumes "single_icon s" "n \<in> set (icon_nodes s)" "m \<in> set (icon_nodes s)"
    "parentElement n = Some p" "parentElement m = Some p"
  shows "n = m"
proof -
  let ?xs = "filter (\<lambda>n. parentElement n \<noteq> None) (icon_nodes s)"
  have "inj_on parentElement (set ?xs)"
    using assms(1) by (simp add: single_icon_def distinct_map)
  moreover have "n \<in> set ?xs" "m \<in> set ?xs" using assms by auto
  ultimately show ?thesis using assms(4,5) by (intro inj_onD[of parentElement "set ?xs"]) simp_all
qed

lemma single_icon_filter:
  "single_icon s \<Longrightarrow> icon_nodes s' = filter P (icon_nodes s) \<Longrightarrow> single_icon s'"
proof -
  assume a: "single_icon s" and b: "icon_nodes s' = filter P (icon_nodes s)"
  have "filter (\<lambda>n. parentElement n \<noteq> None) (filter P (icon_nodes s)) =
        filter P (filter (\<lambda>n. parentElement n \<noteq> None) (icon_nodes s))"
    by (simp add: conj_commute cong: filter_cong)
  then show ?thesis using a unfolding single_icon_def b by (simp only: distinct_map_filter)
qed

text \<open>One iteration of the removal loop: it skips the node, or removes it.\<close>

lemma body_skip:
  "\<not> (node \<in> set (icon_nodes s) \<and> still_matches h s r node) \<Longrightarrow>
   removeFromAllFiles_body h r node s = Inr s \<or>
   removeFromAllFiles_body h r node s = Inr (ensure_entry h (rule r) s)"
  by (auto simp: removeFromAllFiles_body_def still_matches_def owning_path_def doesMatchPath_eq
      split: option.splits)

lemma body_remove:
  "node \<in> set (icon_nodes s) \<Longrightarrow> still_matches h s r node \<Longrightarrow>
   parentElement node = Some p \<Longrightarrow> data_path s p = Some d \<Longrightarrow>
   removeFromAllFiles_body h r node s =
     Inr (IconCache_invalidate d (removeIconInNode p (ensure_entry h (rule r) s)))"
  by (simp add: removeFromAllFiles_body_def still_matches_def owning_path_def doesMatchPath_eq
      split: option.splits)

text \<open>
  The loop over any node list: the nodes removed are those of the list that are attached
  and still match, and the cache loses their owning paths.
\<close>

lemma removeFromAllFiles_loop_spec:
  "single_icon s \<Longrightarrow>
   \<exists>s'. removeFromAllFiles_loop h r ns s = Inr s' \<and>
      icon_nodes s' = filter (\<lambda>n. \<not> (n \<in> set ns \<and> still_matches h s r n)) (icon_nodes s) \<and>
      (\<forall>d. iconCache s' d =
         (if \<exists>n \<in> set ns \<inter> set (icon_nodes s). still_matches h s r n \<and> owning_path s n = Some d
          then None else iconCache s d)) \<and>
      data_path s' = data_path s \<and> rendered s' = rendered s \<and>
      resolve h s' (rule r) = resolve h s (rule r)"
proof (induction ns arbitrary: s)
  case Nil
  then show ?case by simp
next
  case (Cons node ns)
  let ?s1 = "ensure_entry h (rule r) s"
  show ?case
  proof (cases "node \<in> set (icon_nodes s) \<and> still_matches h s r node")
    case False
    from body_skip[OF False] obtain t where
      t: "removeFromAllFiles_body h r node s = Inr t" and tt: "t = s \<or> t = ?s1"
      by blast
    have f: "icon_nodes t = icon_nodes s" "data_path t = data_path s" "iconCache t = iconCache s"
      "rendered t = rendered s" "resolve h t (rule r) = resolve h s (rule r)"
      using tt by auto
    have si: "single_icon t" using Cons.prems f(1) by (simp add: single_icon_def)
    have sm: "still_matches h t r = still_matches h s r"
      using f by (intro still_matches_cong) auto
    have op: "owning_path t = owning_path s"
      by (rule ext) (simp add: owning_path_def f(2) split: option.splits)
    from Cons.IH[OF si] obtain s' where
      s': "removeFromAllFiles_loop h r ns t = Inr s'"
      "icon_nodes s' = filter (\<lambda>n. \<not> (n \<in> set ns \<and> still_matches h t r n)) (icon_nodes t)"
      "\<forall>d. iconCache s' d =
         (if \<exists>n \<in> set ns \<inter> set (icon_nodes t). still_matches h t r n \<and> owning_path t n = Some d
          then None else iconCache t d)"
      "data_path s' = data_path t" "rendered s' = rendered t"
      "resolve h s' (rule r) = resolve h t (rule r)"
      by blast
    have a: "icon_nodes s' =
        filter (\<lambda>n. \<not> (n \<in> set (node # ns) \<and> still_matches h s r n)) (icon_nodes s)"
      unfolding s'(2) sm f(1) using False by (intro filter_cong) auto
    have b: "\<forall>d. iconCache s' d =
         (if \<exists>n \<in> set (node # ns) \<inter> set (icon_nodes s). still_matches h s r n \<and> owning_path s n = Some d
          then None else iconCache s d)"
    proof -
      have eq: "\<And>d. (\<exists>n \<in> set (node # ns) \<inter> set (icon_nodes s).
                    still_matches h s r n \<and> owning_path s n = Some d) =
                 (\<exists>n \<in> set ns \<inter> set (icon_nodes s).
                    still_matches h s r n \<and> owning_path s n = Some d)"
        using False by auto
      show ?thesis by (simp only: s'(3) sm op f(1) f(3) eq) simp
    qed
    have "removeFromAllFiles_loop h r (node # ns) s = Inr s'" using t s'(1) by simp
    moreover have "data_path s' = data_path s" "rendered s' = rendered s"
      "resolve h s' (rule r) = resolve h s (rule r)"
      using s'(4,5,6) f by simp_all
    ultimately show ?thesis using a b by blast
  next
    case True
    then obtain p d where
      p: "parentElement node = Some p" and d: "data_path s p = Some d"
      by (auto simp: still_matches_def owning_path_def split: option.splits)
    let ?t = "IconCache_invalidate d (removeIconInNode p ?s1)"
    have t: "removeFromAllFiles_body h r node s = Inr ?t"
      using True p d by (intro body_remove) simp_all
    have f1: "icon_nodes ?t = filter (\<lambda>n. parentElement n \<noteq> Some p) (icon_nodes s)"
      "data_path ?t = data_path s" "iconCache ?t = (iconCache s)(d := None)"
      "rendered ?t = rendered s" "resolve h ?t (rule r) = resolve h s (rule r)"
      by (auto simp: IconCache_invalidate_def removeIconInNode_def isIconNodeOf_def resolve_def
          ensure_entry_def split: option.splits)
    have si: "single_icon ?t" using Cons.prems f1(1) by (rule single_icon_filter)
    have sm: "still_matches h ?t r = still_matches h s r"
      using f1 by (intro still_matches_cong) auto
    have op: "owning_path ?t = owning_path s"
      by (rule ext) (simp add: owning_path_def f1(2) split: option.splits)
    from Cons.IH[OF si] obtain s' where
      s': "removeFromAllFiles_loop h r ns ?t = Inr s'"
      "icon_nodes s' = filter (\<lambda>n. \<not> (n \<in> set ns \<and> still_matches h ?t r n)) (icon_nodes ?t)"
      "\<forall>d'. iconCache s' d' =
         (if \<exists>n \<in> set ns \<inter> set (icon_nodes ?t). still_matches h ?t r n \<and> owning_path ?t n = Some d'
          then None else iconCache ?t d')"
      "data_path s' = data_path ?t" "rendered s' = rendered ?t"
      "resolve h s' (rule r) = resolve h ?t (rule r)"
      by blast
    have uniq: "\<And>n. n \<in> set (icon_nodes s) \<Longrightarrow> parentElement n = Some p \<Longrightarrow> n = node"
      using single_icon_unique[OF Cons.prems _ _ _ p] True by blast
    have a: "icon_nodes s' =
        filter (\<lambda>n. \<not> (n \<in> set (node # ns) \<and> still_matches h s r n)) (icon_nodes s)"
      unfolding s'(2) sm f1(1) filter_filter using True uniq p
      by (intro filter_cong) auto
    have opn: "owning_path s node = Some d" using p d by (simp add: owning_path_def)
    have b: "\<forall>d'. iconCache s' d' =
         (if \<exists>n \<in> set (node # ns) \<inter> set (icon_nodes s). still_matches h s r n \<and> owning_path s n = Some d'
          then None else iconCache s d')"
    proof
      fix d'
      show "iconCache s' d' =
         (if \<exists>n \<in> set (node # ns) \<inter> set (icon_nodes s). still_matches h s r n \<and> owning_path s n = Some d'
          then None else iconCache s d')"
      proof (cases "d' = d")
        case True
        have "\<exists>n \<in> set (node # ns) \<inter> set (icon_nodes s).
                still_matches h s r n \<and> owning_path s n = Some d"
          using \<open>node \<in> set (icon_nodes s) \<and> still_matches h s r node\<close> opn by auto
        then show ?thesis using True by (simp add: s'(3) f1(3))
      next
        case False
        have "\<And>n. n \<in> set (icon_nodes s) \<Longrightarrow> owning_path s n = Some d' \<Longrightarrow>
                parentElement n \<noteq> Some p \<and> n \<noteq> node"
          using False opn d by (auto simp: owning_path_def)
        then have eq: "(\<exists>n \<in> set ns \<inter> set (filter (\<lambda>n. parentElement n \<noteq> Some p) (icon_nodes s)).
                 still_matches h s r n \<and> owning_path s n = Some d') =
              (\<exists>n \<in> set (node # ns) \<inter> set (icon_nodes s). still_matches h s r n \<and> owning_path s n = Some d')"
          by auto
        have "((iconCache s)(d := None)) d' = iconCache s d'" using False by simp
        then show ?thesis by (simp only: s'(3) sm op f1(1) f1(3) eq)
      qed
    qed
    have "removeFromAllFiles_loop h r (node # ns) s = Inr s'" using t s'(1) by simp
    moreover have "data_path s' = data_path s" "rendered s' = rendered s"
      "resolve h s' (rule r) = resolve h s (rule r)"
      using s'(4,5,6) f1 by simp_all
    ultimately show ?thesis using a b by blast
  qed
qed



text \<open>The code on the example document: only the node on \<^verbatim>\<open>notes/todo.md\<close> goes.\<close>

lemma removeFromAllFiles_example:
  "removeFromAllFiles ex_host (ex_rule ''todo'' ''star'' 0) ex_document =
     Inr (ex_document\<lparr>
       regexCache := [''todo'' \<mapsto> Some ''todo''], compiled := [''todo''],
       iconCache := [''notes'' \<mapsto> ex_entry ''star''],
       icon_nodes :=
        [\<lparr>node_icon = ''star'', parentElement = None\<rparr>,
         \<lparr>node_icon = ''star'', parentElement = Some 1\<rparr>,
         \<lparr>node_icon = ''star'', parentElement = Some 2\<rparr>,
         \<lparr>node_icon = ''moon'', parentElement = Some 4\<rparr>,
         \<lparr>node_icon = ''star'', parentElement = Some 5\<rparr>]\<rparr>)"
  by (simp add: removeFromAllFiles_def querySelectorAll_def css_string_body_def
      removeFromAllFiles_body_def
      doesMatchPath_def doesMatchFileType_def IconCache_invalidate_def removeIconInNode_def
      isIconNodeOf_def ex_host_def ex_rule_def ex_document_def ex_entry_def fun_eq_iff)


text \<open>\<^verbatim>\<open>isApplicable\<close> and \<^verbatim>\<open>createIconNode\<close>, as \<^verbatim>\<open>add\<close> uses them.\<close>

lemma ensure_entry_idem [simp]: "ensure_entry h k (ensure_entry h k s) = ensure_entry h k s"
  by (simp add: ensure_entry_def)

lemma isApplicable_cases:
  "isApplicable h r p s = Inr (False, s) \<or>
   isApplicable h r p s =
     Inr (match_with h (resolve h s (rule r)) (rule r) (comparison_subject r p),
          ensure_entry h (rule r) s)"
  by (simp add: isApplicable_def doesMatchPath_eq split: option.splits)

lemma isApplicable_again:
  "isApplicable h r p s = Inr (b, s1) \<Longrightarrow> isApplicable h r p s1 = Inr (b, s1)"
  by (auto simp: isApplicable_def doesMatchPath_eq split: option.splits if_splits)

lemma isApplicable_fields:
  "isApplicable h r p s = Inr (b, s1) \<Longrightarrow>
   icon_nodes s1 = icon_nodes s \<and> iconCache s1 = iconCache s \<and> rendered s1 = rendered s \<and>
   data_path s1 = data_path s"
  using isApplicable_cases[of h r p s] by auto

lemma createIconNode_container:
  "doesElementHasIconNode (createIconNode h p ic col (Some c) s) c"
  by (simp add: createIconNode_def doesElementHasIconNode_def isIconNodeOf_def Let_def)

lemma createIconNode_fields:
  "iconCache (createIconNode h p ic col container s) = iconCache s"
  "rendered (createIconNode h p ic col container s) = rendered s @ [(p, ic)]"
  by (simp_all add: createIconNode_def Let_def split: option.splits)

text \<open>
  Claim C1, as stated, fails. \<^verbatim>\<open>add\<close> called twice for the same rule and path with no
  container assigns twice: the second call finds no container to inspect, the plugin's
  icon-name lookup still has no icon for the path (the lookup does not read the Icon
  Assignment Cache, which already holds the first assignment), so the rule is applied,
  the cache written and the icon rendered a second time. And \<^verbatim>\<open>add\<close> called twice for a
  rule that does not apply to the path assigns nothing: with the pattern \<^verbatim>\<open>zzz\<close> both calls
  for \<^verbatim>\<open>notes/todo.md\<close> return false.
\<close>

theorem add_without_container_twice:
  "add ex_host (ex_rule ''todo'' ''star'' 0) (TFile ''notes/todo.md'') None init_state =
     Inr (True, ex_added) \<and>
   add ex_host (ex_rule ''todo'' ''star'' 0) (TFile ''notes/todo.md'') None ex_added =
     Inr (True, ex_added\<lparr>rendered := [(''notes/todo.md'', ''star''), (''notes/todo.md'', ''star'')]\<rparr>) \<and>
   add ex_host (ex_rule ''zzz'' ''star'' 0) (TFile ''notes/todo.md'') (Some 1) init_state =
     Inr (False, init_state\<lparr>regexCache := [''zzz'' \<mapsto> Some ''zzz''], compiled := [''zzz'']\<rparr>) \<and>
   add ex_host (ex_rule ''zzz'' ''star'' 0) (TFile ''notes/todo.md'') (Some 1)
       (init_state\<lparr>regexCache := [''zzz'' \<mapsto> Some ''zzz''], compiled := [''zzz'']\<rparr>) =
     Inr (False, init_state\<lparr>regexCache := [''zzz'' \<mapsto> Some ''zzz''], compiled := [''zzz'']\<rparr>)"
  by (simp add: add_def isApplicable_def doesMatchPath_def doesMatchFileType_def
      createIconNode_def IconCache_set_def doesElementHasIconNode_def
      ex_host_def ex_rule_def ex_added_def init_state_def
      ex_entry_def fun_eq_iff)

text \<open>
  Claim C1, amended. When the container already carries an icon node or the plugin's
  icon-name lookup returns an icon for the path, \<^verbatim>\<open>add\<close> returns false and leaves the
  state as it is (no cache write, no render). \<^verbatim>\<open>add\<close> always returns, and it returns true
  exactly when the lookup has no icon for the path, the container (if one is passed)
  carries no icon node and the rule is applicable; then, and only then, it writes the
  rule's icon into the Icon Assignment Cache and renders once. Called twice for the same
  rule, path and container element, \<^verbatim>\<open>add\<close> assigns exactly once when these three conditions
  hold at the first call, and not at all otherwise: the second call returns false and
  changes nothing.
\<close>

theorem add_assigns_once:
  "(((case container of None \<Rightarrow> False | Some c \<Rightarrow> doesElementHasIconNode s c) \<or>
     truthy (getIconNameFromPath h (path f))) \<longrightarrow>
      add h r f container s = Inr (False, s)) \<and>
   (\<exists>b s1. add h r f container s = Inr (b, s1) \<and>
      (b \<longleftrightarrow>
         \<not> (case container of None \<Rightarrow> False | Some c \<Rightarrow> doesElementHasIconNode s c) \<and>
         \<not> truthy (getIconNameFromPath h (path f)) \<and>
         (\<exists>t. isApplicable h r (path f) s = Inr (True, t))) \<and>
      iconCache s1 =
        (if b then (iconCache s)(path f \<mapsto> \<lparr>iconNameWithPrefix = icon r, inCustomRule = True\<rparr>)
         else iconCache s) \<and>
      rendered s1 = rendered s @ (if b then [(path f, icon r)] else [])) \<and>
   (\<forall>c. \<exists>b s1.
      add h r f (Some c) s = Inr (b, s1) \<and> add h r f (Some c) s1 = Inr (False, s1) \<and>
      (b \<longleftrightarrow>
         \<not> doesElementHasIconNode s c \<and> \<not> truthy (getIconNameFromPath h (path f)) \<and>
         (\<exists>t. isApplicable h r (path f) s = Inr (True, t))) \<and>
      iconCache s1 =
        (if b then (iconCache s)(path f \<mapsto> \<lparr>iconNameWithPrefix = icon r, inCustomRule = True\<rparr>)
         else iconCache s) \<and>
      rendered s1 = rendered s @ (if b then [(path f, icon r)] else []))"
proof -
  let ?short = "\<lambda>container. (case container of None \<Rightarrow> False | Some c \<Rightarrow> doesElementHasIconNode s c) \<or>
     truthy (getIconNameFromPath h (path f))"
  let ?e = "\<lparr>iconNameWithPrefix = icon r, inCustomRule = True\<rparr>"
  from isApplicable_cases[of h r "path f" s] obtain m t where
    ia: "isApplicable h r (path f) s = Inr (m, t)" by blast
  note fl = isApplicable_fields[OF ia]
  have A: "?short k \<Longrightarrow> add h r f k s = Inr (False, s)" for k
    by (auto simp: add_def)
  have B: "\<not> ?short k \<Longrightarrow> m \<Longrightarrow>
      add h r f k s = Inr (True, createIconNode h (path f) (icon r) (color r) k
              (IconCache_set (path f) ?e t))" for k
    using ia by (simp add: add_def)
  have C: "\<not> ?short k \<Longrightarrow> \<not> m \<Longrightarrow> add h r f k s = Inr (False, t)" for k
    using ia by (simp add: add_def)
  have G: "\<exists>b s1. add h r f k s = Inr (b, s1) \<and>
      (b \<longleftrightarrow> \<not> ?short k \<and> (\<exists>t. isApplicable h r (path f) s = Inr (True, t))) \<and>
      iconCache s1 = (if b then (iconCache s)(path f \<mapsto> ?e) else iconCache s) \<and>
      rendered s1 = rendered s @ (if b then [(path f, icon r)] else [])" for k
  proof (cases "?short k")
    case True
    have "add h r f k s = Inr (False, s) \<and>
      (False \<longleftrightarrow> \<not> ?short k \<and> (\<exists>t. isApplicable h r (path f) s = Inr (True, t))) \<and>
      iconCache s = (if False then (iconCache s)(path f \<mapsto> ?e) else iconCache s) \<and>
      rendered s = rendered s @ (if False then [(path f, icon r)] else [])"
      using A[OF True] True by simp
    then show ?thesis by blast
  next
    case False
    show ?thesis
    proof (cases m)
      case True
      let ?s1 = "createIconNode h (path f) (icon r) (color r) k (IconCache_set (path f) ?e t)"
      have "add h r f k s = Inr (True, ?s1) \<and>
        (True \<longleftrightarrow> \<not> ?short k \<and> (\<exists>t. isApplicable h r (path f) s = Inr (True, t))) \<and>
        iconCache ?s1 = (if True then (iconCache s)(path f \<mapsto> ?e) else iconCache s) \<and>
        rendered ?s1 = rendered s @ (if True then [(path f, icon r)] else [])"
        using B[OF False True] False True ia fl
        by (simp add: createIconNode_fields IconCache_set_def)
      then show ?thesis by blast
    next
      case m: False
      have "add h r f k s = Inr (False, t) \<and>
        (False \<longleftrightarrow> \<not> ?short k \<and> (\<exists>t. isApplicable h r (path f) s = Inr (True, t))) \<and>
        iconCache t = (if False then (iconCache s)(path f \<mapsto> ?e) else iconCache s) \<and>
        rendered t = rendered s @ (if False then [(path f, icon r)] else [])"
        using C[OF False m] False m ia fl by simp
      then show ?thesis by blast
    qed
  qed
  have E: "add h r f (Some c) s = Inr (b, s1) \<Longrightarrow> add h r f (Some c) s1 = Inr (False, s1)"
    for c b s1
  proof -
    assume a: "add h r f (Some c) s = Inr (b, s1)"
    show ?thesis
    proof (cases "?short (Some c)")
      case True
      then have "s1 = s" using a A[OF True] by simp
      then show ?thesis using A[OF True] by simp
    next
      case False
      show ?thesis
      proof (cases m)
        case True
        then have "s1 = createIconNode h (path f) (icon r) (color r) (Some c)
              (IconCache_set (path f) ?e t)"
          using a B[OF False True] by simp
        then have "doesElementHasIconNode s1 c" by (simp add: createIconNode_container)
        then show ?thesis by (simp add: add_def)
      next
        case m: False
        then have s1: "s1 = t" using a C[OF False m] by simp
        have "icon_nodes t = icon_nodes s" using fl by simp
        then have "\<not> doesElementHasIconNode t c"
          using False by (simp add: doesElementHasIconNode_def)
        moreover have "isApplicable h r (path f) t = Inr (False, t)"
          using isApplicable_again[OF ia] m by simp
        ultimately show ?thesis using False s1 by (simp add: add_def)
      qed
    qed
  qed
  have H: "\<exists>b s1.
      add h r f (Some c) s = Inr (b, s1) \<and> add h r f (Some c) s1 = Inr (False, s1) \<and>
      (b \<longleftrightarrow>
         \<not> doesElementHasIconNode s c \<and> \<not> truthy (getIconNameFromPath h (path f)) \<and>
         (\<exists>t. isApplicable h r (path f) s = Inr (True, t))) \<and>
      iconCache s1 = (if b then (iconCache s)(path f \<mapsto> ?e) else iconCache s) \<and>
      rendered s1 = rendered s @ (if b then [(path f, icon r)] else [])" for c
  proof -
    from G[of "Some c"] obtain b s1 where
      g: "add h r f (Some c) s = Inr (b, s1)"
      "b \<longleftrightarrow> \<not> ?short (Some c) \<and> (\<exists>t. isApplicable h r (path f) s = Inr (True, t))"
      "iconCache s1 = (if b then (iconCache s)(path f \<mapsto> ?e) else iconCache s)"
      "rendered s1 = rendered s @ (if b then [(path f, icon r)] else [])" by blast
    from E[OF g(1)] have e: "add h r f (Some c) s1 = Inr (False, s1)" .
    have "b \<longleftrightarrow> \<not> doesElementHasIconNode s c \<and> \<not> truthy (getIconNameFromPath h (path f)) \<and>
         (\<exists>t. isApplicable h r (path f) s = Inr (True, t))" using g(2) by simp
    with g(1) e g(3) g(4) show ?thesis by blast
  qed
  have G': "\<exists>b s1. add h r f container s = Inr (b, s1) \<and>
      (b \<longleftrightarrow>
         \<not> (case container of None \<Rightarrow> False | Some c \<Rightarrow> doesElementHasIconNode s c) \<and>
         \<not> truthy (getIconNameFromPath h (path f)) \<and>
         (\<exists>t. isApplicable h r (path f) s = Inr (True, t))) \<and>
      iconCache s1 = (if b then (iconCache s)(path f \<mapsto> ?e) else iconCache s) \<and>
      rendered s1 = rendered s @ (if b then [(path f, icon r)] else [])"
    using G[of container] by (simp add: conj_assoc)
  show ?thesis using A[of container] G' H by blast
qed

theorem add_assigns_once_witness:
  "doesElementHasIconNode ex_document 3 \<and>
   add ex_host (ex_rule ''todo'' ''star'' 0) (TFile ''notes/todo.md'') (Some 3) ex_document =
     Inr (False, ex_document) \<and>
   \<not> doesElementHasIconNode (init_state :: string state) 1 \<and>
   \<not> truthy (getIconNameFromPath ex_host (path (TFile ''notes/todo.md''))) \<and>
   isApplicable ex_host (ex_rule ''todo'' ''star'' 0) (path (TFile ''notes/todo.md'')) init_state =
     Inr (True, init_state\<lparr>regexCache := [''todo'' \<mapsto> Some ''todo''], compiled := [''todo'']\<rparr>) \<and>
   (\<exists>s1. add ex_host (ex_rule ''todo'' ''star'' 0) (TFile ''notes/todo.md'') (Some 1) init_state =
            Inr (True, s1) \<and>
          add ex_host (ex_rule ''todo'' ''star'' 0) (TFile ''notes/todo.md'') (Some 1) s1 =
            Inr (False, s1) \<and>
          iconCache s1 ''notes/todo.md'' = Some (ex_entry ''star'') \<and>
          rendered s1 = [(''notes/todo.md'', ''star'')])"
proof -
  let ?r = "ex_rule ''todo'' ''star'' 0" and ?f = "TFile ''notes/todo.md''"
  have 1: "doesElementHasIconNode ex_document 3"
    by (simp add: doesElementHasIconNode_def isIconNodeOf_def ex_document_def)
  have 2: "\<not> doesElementHasIconNode (init_state :: string state) 1"
    by (simp add: doesElementHasIconNode_def init_state_def)
  have 3: "\<not> truthy (getIconNameFromPath ex_host (path ?f))"
    by (simp add: ex_host_def)
  have 4: "isApplicable ex_host ?r (path ?f) init_state =
     Inr (True, init_state\<lparr>regexCache := [''todo'' \<mapsto> Some ''todo''], compiled := [''todo'']\<rparr>)"
    by (simp add: isApplicable_def doesMatchPath_def doesMatchFileType_def
        ex_host_def ex_rule_def init_state_def fun_eq_iff)
  note a = add_assigns_once[where container = "Some 3" and s = ex_document and h = ex_host
      and f = ?f and r = ?r]
  note b = add_assigns_once[where container = "Some 1" and s = "init_state :: string state"
      and h = ex_host and f = ?f and r = ?r]
  have 5: "add ex_host ?r ?f (Some 3) ex_document = Inr (False, ex_document)"
    using a 1 by simp
  from b[THEN conjunct2, THEN conjunct2, THEN spec, of 1]
  obtain b s1 where
    g: "add ex_host ?r ?f (Some 1) init_state = Inr (b, s1)"
       "add ex_host ?r ?f (Some 1) s1 = Inr (False, s1)"
       "b \<longleftrightarrow>
         \<not> doesElementHasIconNode (init_state :: string state) 1 \<and> \<not> truthy (getIconNameFromPath ex_host (path ?f)) \<and>
         (\<exists>t. isApplicable ex_host ?r (path ?f) init_state = Inr (True, t))"
       "iconCache s1 =
        (if b then (iconCache (init_state :: string state))(path ?f \<mapsto> \<lparr>iconNameWithPrefix = icon ?r, inCustomRule = True\<rparr>)
         else iconCache (init_state :: string state))"
       "rendered s1 = rendered (init_state :: string state) @ (if b then [(path ?f, icon ?r)] else [])"
    by blast
  have b: b using g(3) 2 3 4 by simp
  have 6: "iconCache s1 ''notes/todo.md'' = Some (ex_entry ''star'')"
    using g(4) b by (simp add: ex_entry_def ex_rule_def)
  have 7: "rendered s1 = [(''notes/todo.md'', ''star'')]"
    using g(5) b by (simp add: init_state_def ex_rule_def)
  from g(1) g(2) b 6 7 have
    "\<exists>s1. add ex_host ?r ?f (Some 1) init_state = Inr (True, s1) \<and>
          add ex_host ?r ?f (Some 1) s1 = Inr (False, s1) \<and>
          iconCache s1 ''notes/todo.md'' = Some (ex_entry ''star'') \<and>
          rendered s1 = [(''notes/todo.md'', ''star'')]"
    by (intro exI[of _ s1]) simp
  then show ?thesis using 1 2 3 4 5 by simp
qed

text \<open>
  The document invariant holds at process start and is kept by \<^verbatim>\<open>createIconNode\<close>, \<^verbatim>\<open>add\<close>
  and, for an icon that stands for itself in the selector, \<^verbatim>\<open>removeFromAllFiles\<close>.
\<close>

lemma single_icon_init: "single_icon init_state"
  by (simp add: single_icon_def init_state_def)

lemma single_icon_createIconNode:
  assumes "single_icon s"
  shows "single_icon (createIconNode h p ic col container s)"
proof (cases "case container of Some c \<Rightarrow> Some c | None \<Rightarrow> titleElOfPath h p")
  case None
  then show ?thesis using assms by (simp add: createIconNode_def single_icon_def Let_def)
next
  case (Some el)
  let ?xs = "filter (\<lambda>n. parentElement n \<noteq> None) (icon_nodes s)"
  let ?ys = "filter (\<lambda>n. \<not> isIconNodeOf el n) ?xs"
  have d: "distinct (map parentElement ?ys)"
    using assms unfolding single_icon_def by (rule distinct_map_filter)
  have n: "Some el \<notin> set (map parentElement ?ys)"
    by (auto simp: isIconNodeOf_def)
  have c: "filter (\<lambda>n. parentElement n \<noteq> None) (filter (\<lambda>n. \<not> isIconNodeOf el n) (icon_nodes s)) = ?ys"
    by (simp add: conj_commute cong: filter_cong)
  have "icon_nodes (createIconNode h p ic col container s) =
          filter (\<lambda>n. \<not> isIconNodeOf el n) (icon_nodes s) @
          [\<lparr>node_icon = ic, parentElement = Some el\<rparr>]"
    using Some by (simp add: createIconNode_def Let_def)
  then have "filter (\<lambda>n. parentElement n \<noteq> None)
               (icon_nodes (createIconNode h p ic col container s)) =
             ?ys @ [\<lparr>node_icon = ic, parentElement = Some el\<rparr>]"
    using c by simp
  then show ?thesis using d n by (simp add: single_icon_def)
qed

lemma single_icon_add:
  assumes "single_icon s" and "add h r f container s = Inr (b, s')"
  shows "single_icon s'"
proof -
  from isApplicable_cases[of h r "path f" s] obtain m t where
    ia: "isApplicable h r (path f) s = Inr (m, t)" by blast
  have t: "single_icon t"
    using isApplicable_fields[OF ia] assms(1) by (simp add: single_icon_def)
  have "s' = s \<or> s' = t \<or>
        s' = createIconNode h (path f) (icon r) (color r) container
               (IconCache_set (path f) \<lparr>iconNameWithPrefix = icon r, inCustomRule = True\<rparr> t)"
    using assms(2) ia by (auto simp: add_def split: if_splits)
  moreover have "single_icon (IconCache_set (path f)
      \<lparr>iconNameWithPrefix = icon r, inCustomRule = True\<rparr> t)"
    using t by (simp add: single_icon_def IconCache_set_def)
  ultimately show ?thesis using assms(1) t single_icon_createIconNode by blast
qed

lemma single_icon_removeFromAllFiles:
  assumes "single_icon s" and "css_string_body (icon r)"
    and "removeFromAllFiles h r s = Inr s'"
  shows "single_icon s'"
proof -
  let ?ns = "filter (\<lambda>n. node_icon n = icon r) (icon_nodes s)"
  from removeFromAllFiles_loop_spec[OF assms(1), of h r ?ns]
  obtain t where "removeFromAllFiles_loop h r ?ns s = Inr t"
    and "icon_nodes t = filter (\<lambda>n. \<not> (n \<in> set ?ns \<and> still_matches h s r n)) (icon_nodes s)"
    by blast
  then show ?thesis using assms
    by (auto simp: removeFromAllFiles_def querySelectorAll_def intro: single_icon_filter)
qed


section \<open>Properties of the label scan\<close>




lemma body_unresolved:
  "icon_of h n c = None \<Longrightarrow> processTreeItemInner_body h el n c st = st"
  by (cases st) (simp add: processTreeItemInner_body_def icon_of_def Let_def)

lemma body_resolved:
  "icon_of h n c = Some ic \<Longrightarrow>
   processTreeItemInner_body h el n c (t, T, s) =
     (js_substring t 0 (snd c - T) @ js_substring_from t (snd c + int (length (fst c)) - T),
      T + int (length (fst c)),
      (snd (getNavItemSize h s))\<lparr>innerHTML := (innerHTML (snd (getNavItemSize h s)))
         (el := js_replace (innerHTML (snd (getNavItemSize h s)) el) (fst c)
            (iconSpanOuterHTML h (js_slice (fst c) (int n) (int (length (fst c)) - int n)) ic
               (fst (getNavItemSize h s))))\<rparr>)"
  by (simp add: processTreeItemInner_body_def icon_of_def Let_def split: prod.splits)













text \<open>
  The scan of the label \<^verbatim>\<open>a :one: b :two: c\<close>: the token \<^verbatim>\<open>:two:\<close>, found at 10, is spliced
  out at \<open>10 - 5\<close>.
\<close>

lemma label_scan_example:
  "processTreeItemInner ex_outline_host (Some 11) ex_outline =
     ex_outline\<lparr>cachedIconShortcodeRegex := Some (), cachedNavItemSize := Some NaN,
       innerHTML := (innerHTML ex_outline)(11 := ''a <one NaN> b <two NaN> c''),
       scanned := [Some 11]\<rparr> \<and>
   processTreeItemInner_loop ex_outline_host 11 1 [('':one:'', 2), ('':two:'', 10)]
       (''a :one: b :two: c'', 0, ex_outline) =
     (''a  b  c'', 10,
      ex_outline\<lparr>cachedNavItemSize := Some NaN,
       innerHTML := (innerHTML ex_outline)(11 := ''a <one NaN> b <two NaN> c'')\<rparr>)"
  by (simp add: processTreeItemInner_def processTreeItemInner_body_def getIconShortcodeRegex_def
      getNavItemSize_def nullish_or_def getPropertyValue_def js_slice_def js_substring_def
      js_substring_from_def js_replace_def ex_outline_host_def ex_outline_def Let_def fun_eq_iff)


section \<open>Properties of the font-size cache\<close>

lemma getNavItemSize_cached:
  "cachedNavItemSize s = Some v \<Longrightarrow> getNavItemSize h s = (v, s)"
  by (simp add: getNavItemSize_def)

lemma body_keeps_size:
  "cachedNavItemSize s = Some v \<Longrightarrow>
   cachedNavItemSize (snd (snd (processTreeItemInner_body h el n c (t, T, s)))) = Some v"
  by (cases "icon_of h n c") (simp_all add: body_unresolved body_resolved getNavItemSize_cached)

lemma loop_keeps_size:
  "cachedNavItemSize s = Some v \<Longrightarrow>
   cachedNavItemSize (snd (snd (processTreeItemInner_loop h el n cs (t, T, s)))) = Some v"
proof (induction cs arbitrary: t T s)
  case Nil
  then show ?case by simp
next
  case (Cons c cs)
  obtain t' T' s' where b: "processTreeItemInner_body h el n c (t, T, s) = (t', T', s')"
    by (cases "processTreeItemInner_body h el n c (t, T, s)") auto
  then have "cachedNavItemSize s' = Some v"
    using body_keeps_size[OF Cons.prems, of h el n c t T] by simp
  from Cons.IH[OF this] show ?case by (simp add: b)
qed

lemma processTreeItemInner_keeps_size:
  "cachedNavItemSize s = Some v \<Longrightarrow> cachedNavItemSize (processTreeItemInner h x s) = Some v"
proof (cases x)
  case None
  assume "cachedNavItemSize s = Some v"
  then show ?thesis using None by (simp add: processTreeItemInner_def)
next
  case (Some el)
  assume v: "cachedNavItemSize s = Some v"
  let ?s0 = "s\<lparr>scanned := scanned s @ [x]\<rparr>"
  have "cachedNavItemSize (snd (getIconShortcodeRegex h ?s0)) = Some v"
    using v by (simp add: getIconShortcodeRegex_def split: option.splits)
  then show ?thesis using v Some
    by (auto simp: processTreeItemInner_def Let_def loop_keeps_size split: prod.splits)
qed

lemma processTreeItems_loop_keeps_size:
  "cachedNavItemSize s = Some v \<Longrightarrow> cachedNavItemSize (processTreeItems_loop h xs s) = Some v"
  by (induction xs arbitrary: s) (simp_all add: processTreeItemInner_keeps_size)

lemma callback_addedNodes_keeps_size:
  "cachedNavItemSize s = Some v \<Longrightarrow> cachedNavItemSize (callback_addedNodes h xs s) = Some v"
  by (induction xs arbitrary: s)
     (simp_all add: processTreeItemInner_keeps_size processTreeItems_loop_keeps_size)

lemma callback_mutations_keeps_size:
  "cachedNavItemSize s = Some v \<Longrightarrow> cachedNavItemSize (callback_mutations h ms s) = Some v"
  by (induction ms arbitrary: s) (simp_all add: callback_addedNodes_keeps_size)

lemma callback_keeps_size:
  "cachedNavItemSize s = Some v \<Longrightarrow> cachedNavItemSize (callback h ms s) = Some v"
  by (simp add: callback_def callback_mutations_keeps_size disconnect_def split: option.splits)

text \<open>
  Claim C10. \<^verbatim>\<open>getPropertyValue\<close> gives a string for every property, so the \<^verbatim>\<open>?? '16'\<close>
  default is never taken. When the body's computed style has no \<^verbatim>\<open>--nav-item-size\<close> (and
  \<^verbatim>\<open>parseFloat('')\<close> is \<^verbatim>\<open>NaN\<close>, as it is in JavaScript), \<^verbatim>\<open>getNavItemSize\<close> with an empty
  cache returns \<^verbatim>\<open>NaN\<close>, not 16, and caches it; from then on it returns the cached \<^verbatim>\<open>NaN\<close>
  whatever the style says, every span the label scan builds is built with the font size
  \<^verbatim>\<open>NaN\<close>, and the scan and the mutation callback leave the cached value in place (only the
  \<^verbatim>\<open>allIconsLoaded\<close> handler resets it).
\<close>

theorem getNavItemSize_caches_NaN:
  assumes "bodyStyle h ''--nav-item-size'' = None"
    and "parseFloat h [] = NaN"
    and "cachedNavItemSize s = None"
  shows "(\<forall>style p d. nullish_or (getPropertyValue style p) d =
            (case style p of None \<Rightarrow> [] | Some v \<Rightarrow> v)) \<and>
    getNavItemSize h s = (NaN, s\<lparr>cachedNavItemSize := Some NaN\<rparr>) \<and>
    fst (getNavItemSize h s) \<noteq> Num 16 \<and>
    (\<forall>el n c ic t T. icon_of h n c = Some ic \<longrightarrow>
       snd (snd (processTreeItemInner_body h el n c (t, T, s))) =
         s\<lparr>cachedNavItemSize := Some NaN,
           innerHTML := (innerHTML s)(el := js_replace (innerHTML s el) (fst c)
             (iconSpanOuterHTML h (js_slice (fst c) (int n) (int (length (fst c)) - int n))
                ic NaN))\<rparr>) \<and>
    (\<forall>h' s'. cachedNavItemSize s' = Some NaN \<longrightarrow>
       getNavItemSize h' s' = (NaN, s') \<and>
       (\<forall>el n c ic t T. icon_of h' n c = Some ic \<longrightarrow>
          snd (snd (processTreeItemInner_body h' el n c (t, T, s'))) =
            s'\<lparr>innerHTML := (innerHTML s')(el := js_replace (innerHTML s' el) (fst c)
               (iconSpanOuterHTML h' (js_slice (fst c) (int n) (int (length (fst c)) - int n))
                  ic NaN))\<rparr>) \<and>
       (\<forall>x. cachedNavItemSize (processTreeItemInner h' x s') = Some NaN) \<and>
       (\<forall>ms. cachedNavItemSize (callback h' ms s') = Some NaN))"
proof -
  have g: "getNavItemSize h s = (NaN, s\<lparr>cachedNavItemSize := Some NaN\<rparr>)"
    using assms by (simp add: getNavItemSize_def nullish_or_def getPropertyValue_def)
  have 1: "\<forall>style p d. nullish_or (getPropertyValue style p) d =
            (case style p of None \<Rightarrow> [] | Some v \<Rightarrow> v)"
    by (simp add: nullish_or_def getPropertyValue_def)
  have 2: "fst (getNavItemSize h s) \<noteq> Num 16" by (simp add: g)
  have 3: "\<forall>el n c ic t T. icon_of h n c = Some ic \<longrightarrow>
       snd (snd (processTreeItemInner_body h el n c (t, T, s))) =
         s\<lparr>cachedNavItemSize := Some NaN,
           innerHTML := (innerHTML s)(el := js_replace (innerHTML s el) (fst c)
             (iconSpanOuterHTML h (js_slice (fst c) (int n) (int (length (fst c)) - int n))
                ic NaN))\<rparr>"
    by (simp add: body_resolved g)
  have 4: "\<forall>h' s'. cachedNavItemSize s' = Some NaN \<longrightarrow>
       getNavItemSize h' s' = (NaN, s') \<and>
       (\<forall>el n c ic t T. icon_of h' n c = Some ic \<longrightarrow>
          snd (snd (processTreeItemInner_body h' el n c (t, T, s'))) =
            s'\<lparr>innerHTML := (innerHTML s')(el := js_replace (innerHTML s' el) (fst c)
               (iconSpanOuterHTML h' (js_slice (fst c) (int n) (int (length (fst c)) - int n))
                  ic NaN))\<rparr>) \<and>
       (\<forall>x. cachedNavItemSize (processTreeItemInner h' x s') = Some NaN) \<and>
       (\<forall>ms. cachedNavItemSize (callback h' ms s') = Some NaN)"
    by (simp add: getNavItemSize_cached body_resolved processTreeItemInner_keeps_size
        callback_keeps_size)
  from g 1 2 3 4 show ?thesis by blast
qed

theorem getNavItemSize_caches_NaN_witness:
  "bodyStyle ex_outline_host ''--nav-item-size'' = None \<and>
   parseFloat ex_outline_host [] = NaN \<and>
   parseFloat ex_outline_host ''16'' = Num 16 \<and>
   cachedNavItemSize ex_outline = None \<and>
   getNavItemSize ex_outline_host ex_outline = (NaN, ex_outline\<lparr>cachedNavItemSize := Some NaN\<rparr>) \<and>
   getNavItemSize (ex_outline_host\<lparr>bodyStyle := [''--nav-item-size'' \<mapsto> ''16'']\<rparr>)
       (ex_outline\<lparr>cachedNavItemSize := Some NaN\<rparr>) =
     (NaN, ex_outline\<lparr>cachedNavItemSize := Some NaN\<rparr>)"
proof -
  have 1: "bodyStyle ex_outline_host ''--nav-item-size'' = None"
    by (simp add: ex_outline_host_def)
  have 2: "parseFloat ex_outline_host [] = NaN" by (simp add: ex_outline_host_def)
  have 3: "cachedNavItemSize ex_outline = None" by (simp add: ex_outline_def)
  have 4: "parseFloat ex_outline_host ''16'' = Num 16" by (simp add: ex_outline_host_def)
  have 5: "cachedNavItemSize (ex_outline\<lparr>cachedNavItemSize := Some NaN\<rparr>) = Some NaN" by simp
  note t = getNavItemSize_caches_NaN[OF 1 2 3]
  have a: "getNavItemSize ex_outline_host ex_outline =
      (NaN, ex_outline\<lparr>cachedNavItemSize := Some NaN\<rparr>)"
    using t by blast
  have b: "getNavItemSize (ex_outline_host\<lparr>bodyStyle := [''--nav-item-size'' \<mapsto> ''16'']\<rparr>)
       (ex_outline\<lparr>cachedNavItemSize := Some NaN\<rparr>) =
     (NaN, ex_outline\<lparr>cachedNavItemSize := Some NaN\<rparr>)"
    using t 5 by blast
  from 1 2 3 4 a b show ?thesis by blast
qed

section \<open>Properties of registration and the mutation callback\<close>

lemma callback_disabled_eq:
  "\<not> enabled s \<Longrightarrow>
   callback h ms s =
     (case observer s of None \<Rightarrow> s | Some ob \<Rightarrow> disconnect ob s)\<lparr>observer := None\<rparr>"
  by (simp add: callback_def)

lemma callback_disabled_fields:
  "\<not> enabled s \<Longrightarrow>
   \<not> enabled (callback h ms s) \<and> scanned (callback h ms s) = scanned s \<and>
   innerHTML (callback h ms s) = innerHTML s"
  by (simp add: callback_def disconnect_def split: option.splits)

lemma deliver_disabled:
  "\<not> enabled s \<Longrightarrow>
   \<not> enabled (deliver h ms obs s) \<and> scanned (deliver h ms obs s) = scanned s \<and>
   innerHTML (deliver h ms obs s) = innerHTML s"
proof (induction obs arbitrary: s)
  case Nil
  then show ?case by simp
next
  case (Cons ob obs)
  let ?s1 = "if ob \<in> set (observing s) then callback h ms s else s"
  have s1: "\<not> enabled ?s1 \<and> scanned ?s1 = scanned s \<and> innerHTML ?s1 = innerHTML s"
    using callback_disabled_fields[OF Cons.prems, of h ms] Cons.prems by simp
  from Cons.IH[of ?s1] s1 show ?case by simp
qed

lemma run_mutations_disabled:
  "\<not> enabled s \<Longrightarrow>
   \<not> enabled (run h (map Mutations bs) s) \<and> scanned (run h (map Mutations bs) s) = scanned s \<and>
   innerHTML (run h (map Mutations bs) s) = innerHTML s"
proof (induction bs arbitrary: s)
  case Nil
  then show ?case by simp
next
  case (Cons b bs)
  let ?s1 = "deliver h b (observing s) s"
  have s1: "\<not> enabled ?s1 \<and> scanned ?s1 = scanned s \<and> innerHTML ?s1 = innerHTML s"
    using deliver_disabled[OF Cons.prems, of h b "observing s"] by simp
  from Cons.IH[of ?s1] s1 show ?case by simp
qed

lemma run_without_observers:
  "observing s = [] \<Longrightarrow> list_all no_registration es \<Longrightarrow>
   scanned (run h es s) = scanned s \<and> innerHTML (run h es s) = innerHTML s \<and>
   observing (run h es s) = []"
proof (induction es arbitrary: s)
  case Nil
  then show ?case by simp
next
  case (Cons e es)
  have "observing (step h e s) = [] \<and> scanned (step h e s) = scanned s \<and>
        innerHTML (step h e s) = innerHTML s"
    using Cons.prems by (cases e) simp_all
  then show ?case using Cons.IH[of "step h e s"] Cons.prems(2) by simp
qed

text \<open>
  What the callback does with the feature disabled: it does not look at the batch, it
  disconnects the observer the injector holds, forgets it and returns; no node is
  scanned and no label rewritten, by this batch and by every later batch while the feature
  is off. When the injector's observer is the only one attached, none is attached
  afterwards, and no later structural change is processed, whether or not the feature is
  switched on again, as long as \<^verbatim>\<open>register\<close> is not called.
\<close>

lemma callback_disabled_single_observer:
  assumes "\<not> enabled s"
  shows "callback h ms s =
      (case observer s of None \<Rightarrow> s | Some ob \<Rightarrow> disconnect ob s)\<lparr>observer := None\<rparr> \<and>
    scanned (callback h ms s) = scanned s \<and>
    innerHTML (callback h ms s) = innerHTML s \<and>
    observer (callback h ms s) = None \<and>
    (case observer s of None \<Rightarrow> True | Some ob \<Rightarrow> ob \<notin> set (observing (callback h ms s))) \<and>
    scanned (run h (map Mutations bs) (callback h ms s)) = scanned s \<and>
    innerHTML (run h (map Mutations bs) (callback h ms s)) = innerHTML s \<and>
    (set (observing s) \<subseteq> set_option (observer s) \<longrightarrow>
       observing (callback h ms s) = [] \<and>
       (\<forall>es. list_all no_registration es \<longrightarrow>
          scanned (run h es (callback h ms s)) = scanned s \<and>
          innerHTML (run h es (callback h ms s)) = innerHTML s))"
proof -
  let ?s1 = "callback h ms s"
  note eq = callback_disabled_eq[OF assms, of h ms]
  note f = callback_disabled_fields[OF assms, of h ms]
  have o: "observer ?s1 = None" by (simp add: eq)
  have d: "case observer s of None \<Rightarrow> True | Some ob \<Rightarrow> ob \<notin> set (observing ?s1)"
    by (simp add: eq disconnect_def split: option.splits)
  have r: "scanned (run h (map Mutations bs) ?s1) = scanned s \<and>
           innerHTML (run h (map Mutations bs) ?s1) = innerHTML s"
    using run_mutations_disabled[of ?s1 h bs] f by simp
  have single: "set (observing s) \<subseteq> set_option (observer s) \<longrightarrow>
       observing ?s1 = [] \<and>
       (\<forall>es. list_all no_registration es \<longrightarrow>
          scanned (run h es ?s1) = scanned s \<and> innerHTML (run h es ?s1) = innerHTML s)"
  proof
    assume sub: "set (observing s) \<subseteq> set_option (observer s)"
    have e: "observing ?s1 = []"
    proof (cases "observer s")
      case None
      then show ?thesis using sub by (simp add: eq)
    next
      case (Some ob)
      then have "set (observing s) \<subseteq> {ob}" using sub by simp
      then have "removeAll ob (observing s) = []"
        by (induction "observing s") (auto simp: removeAll_id subset_iff filter_empty_conv removeAll_filter_not_eq)
      then show ?thesis using Some by (simp add: eq disconnect_def)
    qed
    show "observing ?s1 = [] \<and>
       (\<forall>es. list_all no_registration es \<longrightarrow>
          scanned (run h es ?s1) = scanned s \<and> innerHTML (run h es ?s1) = innerHTML s)"
      using run_without_observers[OF e, of _ h] f e by simp
  qed
  show ?thesis using eq f o d r single by blast
qed

text \<open>After one registration and its signal: the only observer is disconnected for good.\<close>

lemma callback_disabled_single_observer_example:
  "\<not> enabled ex_disabled \<and>
   observing ex_disabled = [0] \<and>
   observing (callback ex_outline_host
      [\<lparr>mutation_type = ''childList'', addedNodes = [1]\<rparr>] ex_disabled) = [] \<and>
   scanned (run ex_outline_host
      [Mutations [\<lparr>mutation_type = ''childList'', addedNodes = [2]\<rparr>], SetEnabled True,
       Mutations [\<lparr>mutation_type = ''childList'', addedNodes = [1]\<rparr>]]
      (callback ex_outline_host
         [\<lparr>mutation_type = ''childList'', addedNodes = [1]\<rparr>] ex_disabled)) =
     [Some 11, Some 12]"
proof -
  have 1: "\<not> enabled ex_disabled" by code_simp
  have 2: "observing ex_disabled = [0]" by code_simp
  have o: "observer ex_disabled = Some 0" by code_simp
  have 3: "set (observing ex_disabled) \<subseteq> set_option (observer ex_disabled)"
    unfolding 2 o by simp
  have 4: "scanned ex_disabled = [Some 11, Some 12]" by code_simp
  have 5: "list_all no_registration
      [Mutations [\<lparr>mutation_type = ''childList'', addedNodes = [2]\<rparr>], SetEnabled True,
       Mutations [\<lparr>mutation_type = ''childList'', addedNodes = [1]\<rparr>]]"
    by simp
  note t = callback_disabled_single_observer[OF 1, of ex_outline_host
      "[\<lparr>mutation_type = ''childList'', addedNodes = [1]\<rparr>]" "[]"]
  have a: "observing (callback ex_outline_host
      [\<lparr>mutation_type = ''childList'', addedNodes = [1]\<rparr>] ex_disabled) = []"
    using t 3 by blast
  have b: "scanned (run ex_outline_host
      [Mutations [\<lparr>mutation_type = ''childList'', addedNodes = [2]\<rparr>], SetEnabled True,
       Mutations [\<lparr>mutation_type = ''childList'', addedNodes = [1]\<rparr>]]
      (callback ex_outline_host
         [\<lparr>mutation_type = ''childList'', addedNodes = [1]\<rparr>] ex_disabled)) =
     scanned ex_disabled"
    using t 3 5 by blast
  from 1 2 a b show ?thesis unfolding 4 by blast
qed

text \<open>
  Claim C8 fails on the code. After two \<^verbatim>\<open>register\<close> calls before the \<^verbatim>\<open>allIconsLoaded\<close>
  signal two observers watch the region and the injector holds the second. With the
  feature switched off, the callback of the first batch discards the batch and disconnects
  the observer the injector holds, the second; the first stays attached and nothing refers
  to it any more. While the feature is off its callback discards every batch. Once the
  feature is on again, with no \<^verbatim>\<open>register\<close> call, the next structural change is processed:
  the label of the added tree item is scanned.
\<close>

theorem callback_disabled_leaves_observer:
  "observing (run ex_outline_host [Register, Register, AllIconsLoaded, SetEnabled False]
      ex_outline) = [0, 1] \<and>
   \<not> enabled (run ex_outline_host [Register, Register, AllIconsLoaded, SetEnabled False]
      ex_outline) \<and>
   scanned (run ex_outline_host [Register, Register, AllIconsLoaded, SetEnabled False]
      ex_outline) = [Some 11, Some 12, Some 11, Some 12] \<and>
   observing (run ex_outline_host
      [Register, Register, AllIconsLoaded, SetEnabled False,
       Mutations [\<lparr>mutation_type = ''childList'', addedNodes = [1]\<rparr>]] ex_outline) = [0] \<and>
   observer (run ex_outline_host
      [Register, Register, AllIconsLoaded, SetEnabled False,
       Mutations [\<lparr>mutation_type = ''childList'', addedNodes = [1]\<rparr>]] ex_outline) = None \<and>
   scanned (run ex_outline_host
      [Register, Register, AllIconsLoaded, SetEnabled False,
       Mutations [\<lparr>mutation_type = ''childList'', addedNodes = [1]\<rparr>]] ex_outline) =
     [Some 11, Some 12, Some 11, Some 12] \<and>
   scanned (run ex_outline_host
      [Register, Register, AllIconsLoaded, SetEnabled False,
       Mutations [\<lparr>mutation_type = ''childList'', addedNodes = [1]\<rparr>],
       SetEnabled True,
       Mutations [\<lparr>mutation_type = ''childList'', addedNodes = [1]\<rparr>]] ex_outline) =
     [Some 11, Some 12, Some 11, Some 12, Some 11]"
  by code_simp

lemma same_control_refl [simp]: "same_control s s"
  by (simp add: same_control_def)

lemma same_control_trans: "same_control s s1 \<Longrightarrow> same_control s1 s2 \<Longrightarrow> same_control s s2"
  by (simp add: same_control_def)

lemma body_same_control:
  "same_control s (snd (snd (processTreeItemInner_body h el n c (t, T, s))))"
  by (cases "icon_of h n c")
     (simp_all add: body_unresolved body_resolved same_control_def getNavItemSize_def Let_def
        split: option.splits)

lemma loop_same_control:
  "same_control s (snd (snd (processTreeItemInner_loop h el n cs (t, T, s))))"
proof (induction cs arbitrary: t T s)
  case Nil
  show ?case by simp
next
  case (Cons c cs)
  obtain t' T' s' where b: "processTreeItemInner_body h el n c (t, T, s) = (t', T', s')"
    by (cases "processTreeItemInner_body h el n c (t, T, s)") auto
  have "same_control s s'" using body_same_control[of s h el n c t T] b by simp
  then show ?case using Cons[where t = t' and T = T' and s = s'] b
    by (auto intro: same_control_trans)
qed

lemma processTreeItemInner_same_control: "same_control s (processTreeItemInner h x s)"
proof (cases x)
  case None
  then show ?thesis by (simp add: processTreeItemInner_def same_control_def)
next
  case (Some el)
  let ?s0 = "s\<lparr>scanned := scanned s @ [x]\<rparr>"
  obtain rx s1 where g: "getIconShortcodeRegex h ?s0 = (rx, s1)"
    by (cases "getIconShortcodeRegex h ?s0") auto
  have "same_control s s1"
    using g by (auto simp: getIconShortcodeRegex_def same_control_def split: option.splits)
  moreover have "\<And>cs t. same_control s1 (snd (snd (processTreeItemInner_loop h el
      (length (iconIdentifier (getSettings h))) cs (t, 0, s1))))"
    by (rule loop_same_control)
  ultimately show ?thesis using Some g
    by (auto simp: processTreeItemInner_def Let_def same_control_def)
qed

lemma processTreeItems_loop_same_control: "same_control s (processTreeItems_loop h xs s)"
proof (induction xs arbitrary: s)
  case Nil
  show ?case by simp
next
  case (Cons x xs)
  show ?case
    using processTreeItemInner_same_control[of s h "querySelectorInner h x"]
      Cons[of "processTreeItemInner h (querySelectorInner h x) s"]
    by (auto intro: same_control_trans)
qed

text \<open>
  The two mechanisms behind the single-watcher invariant, each as the code has it:
  \<^verbatim>\<open>register\<close> on a registered injector that holds an observer disconnects it, and the
  handler of one registration attaches exactly one new observer.
\<close>

lemma register_disconnects_previous:
  "enabled s \<Longrightarrow> registered s \<Longrightarrow> observer s = Some ob \<Longrightarrow>
   observer (fst (register h s)) = None \<and>
   observing (fst (register h s)) = removeAll ob (observing s)"
  by (simp add: register_def disconnect_def setOutlineIcons_def Let_def split: option.splits)

lemma onAllIconsLoaded_attaches_one:
  assumes "leafContainerEl h = Some el"
  shows "snd (onAllIconsLoaded h s) = None \<and>
     observing (fst (onAllIconsLoaded h s)) = observing s @ [constructed s] \<and>
     observer (fst (onAllIconsLoaded h s)) = Some (constructed s) \<and>
     constructed (fst (onAllIconsLoaded h s)) = Suc (constructed s)"
proof -
  let ?s1 = "s\<lparr>cachedIconShortcodeRegex := None, cachedNavItemSize := None\<rparr>"
  have "same_control ?s1 (processTreeItems h el ?s1)"
    unfolding processTreeItems_def by (rule processTreeItems_loop_same_control)
  then show ?thesis using assms
    by (simp add: onAllIconsLoaded_def Let_def same_control_def)
qed

text \<open>
  A registration whose signal arrives before the next \<^verbatim>\<open>register\<close> call leaves exactly one
  observer attached, the newly constructed one, whenever the observers attached before
  were at most the one the registered injector holds.
\<close>

lemma register_then_signal_single:
  assumes "enabled s" and "\<not> requireApiVersion h" and "leafContainerEl h = Some el"
    and "listeners s = 0"
    and "set (observing s) \<subseteq> set_option (observer s)"
    and "observer s = None \<or> registered s"
  shows "observing (run h [Register, AllIconsLoaded] s) = [constructed s] \<and>
         observer (run h [Register, AllIconsLoaded] s) = Some (constructed s)"
proof -
  let ?s1 = "fst (register h s)"
  have obs: "observing ?s1 = []"
  proof (cases "observer s")
    case None
    then show ?thesis using assms(1,2,5)
      by (simp add: register_def setOutlineIcons_def Let_def)
  next
    case (Some ob)
    then have "set (observing s) \<subseteq> {ob}" using assms(5) by simp
    then have "removeAll ob (observing s) = []"
      by (induction "observing s") (auto simp: removeAll_filter_not_eq filter_empty_conv)
    then show ?thesis using Some assms(1,2,6)
      by (simp add: register_def setOutlineIcons_def disconnect_def Let_def)
  qed
  have l: "listeners ?s1 = Suc 0" and c: "constructed ?s1 = constructed s"
    using assms(1,2,4)
    by (simp_all add: register_def setOutlineIcons_def disconnect_def Let_def split: option.splits)
  let ?s2 = "?s1\<lparr>listeners := 0\<rparr>"
  have "run h [Register, AllIconsLoaded] s = fst (onAllIconsLoaded h ?s2)"
    by (simp add: l)
  moreover have "observing ?s2 = []" "constructed ?s2 = constructed s"
    using obs c by simp_all
  ultimately show ?thesis
    using onAllIconsLoaded_attaches_one[OF assms(3), of ?s2] by simp
qed

text \<open>
  Claim C7 fails on the code. Two \<^verbatim>\<open>register\<close> calls before the \<^verbatim>\<open>allIconsLoaded\<close> signal
  leave two handlers waiting (the second call finds no observer to disconnect); the
  signal runs both, the second overwrites \<open>observer\<close> without disconnecting the first
  one's observer, and two observers watch the region: a node added afterwards is scanned
  twice. A registration that follows the signal of the previous one leaves one observer.
\<close>

theorem register_twice_attaches_two_observers:
  "observing (run ex_outline_host [Register, Register, AllIconsLoaded] ex_outline) = [0, 1] \<and>
   observer (run ex_outline_host [Register, Register, AllIconsLoaded] ex_outline) = Some 1 \<and>
   scanned (run ex_outline_host
      [Register, Register, AllIconsLoaded,
       Mutations [\<lparr>mutation_type = ''childList'', addedNodes = [1]\<rparr>]] ex_outline) =
     [Some 11, Some 12, Some 11, Some 12, Some 11, Some 11] \<and>
   observing (run ex_outline_host [Register, AllIconsLoaded, Register, AllIconsLoaded]
      ex_outline) = [1]"
  by code_simp

end
